theory Spec2Isabelle
  imports Main
begin

section \<open>The Ger library node: rank-1 update\<close>

text \<open>
  The node \<^verbatim>\<open>Ger\<close> of \<^verbatim>\<open>dace/libraries/blas/nodes/ger.py\<close> has two expansions:
  \<^verbatim>\<open>ExpandGerPure\<close> (whole arrays) and \<^verbatim>\<open>Expand_GER_FPGA_Streaming_RowTiles\<close> (tiled,
  streamed). Both build a dataflow graph. The model keeps two layers apart: what the Python
  code decides while it builds the graph (checks, raised errors, the chosen tasklet program
  and memlet index), and what the built graph computes when it runs (maps as loops in
  ascending index order, streams as queues, tasklets as functions on values).

  Values are taken in a commutative ring: the rounding of floating-point numbers is outside
  the model.
\<close>

subsection \<open>Errors raised by the Python code\<close>

datatype ger_error =
    ExpectedThreeInputs          \<comment> \<open>ValueError, \<^verbatim>\<open>validate\<close>, \<^verbatim>\<open>len(in_edges) != 3\<close>\<close>
  | ExpectedOneOutput            \<comment> \<open>ValueError, \<^verbatim>\<open>validate\<close>, first \<^verbatim>\<open>len(out_edges) != 1\<close>\<close>
  | ExpectedOneOutputRank1       \<comment> \<open>ValueError, \<^verbatim>\<open>validate\<close>, second \<^verbatim>\<open>len(out_edges) != 1\<close>\<close>
  | DataTypeMustBeSet            \<comment> \<open>ValueError, \<^verbatim>\<open>expansion\<close>, \<^verbatim>\<open>node.dtype is None\<close>\<close>
  | VectorsSingleDimension       \<comment> \<open>SyntaxError "Vectors must have single dimension"\<close>
  | SameStorage                  \<comment> \<open>ValueError "Input vectors must have same storage."\<close>
  | CouldNotBroadcast nat nat    \<comment> \<open>ValueError "Could not broadcast input _res to (M, N)"\<close>
  | ArgumentShape                \<comment> \<open>running a graph on data that does not have the declared shapes\<close>
  | StreamUnderrun               \<comment> \<open>a running graph pops from a stream that holds no element\<close>
  | OutOfBounds                  \<comment> \<open>a running graph accesses a buffer outside its storage\<close>

subsection \<open>The node and its validation\<close>

record ('a, 't) Ger =
  ger_dtype :: "'t option"
  ger_nTile :: nat
  ger_mTile :: nat
  ger_n :: nat
  ger_m :: nat
  ger_a :: 'a
  ger_vecWidthM :: nat
  ger_alpha :: 'a

text \<open>
  An edge into the node is its destination connector and the sizes of its memlet subset;
  an edge out of the node is the sizes of its memlet subset. \<^verbatim>\<open>Ger.validate\<close> counts the
  edges. It also computes \<^verbatim>\<open>size_a\<close>, \<^verbatim>\<open>size_x\<close>, \<^verbatim>\<open>size_y\<close> and \<^verbatim>\<open>size_out\<close>, but every
  comparison of them is commented out in the source, so they do not reach the result.
\<close>

type_synonym in_edge = "string \<times> nat list"
type_synonym out_edge = "nat list"

definition validate :: "in_edge list \<Rightarrow> out_edge list \<Rightarrow> ger_error + unit" where
  "validate in_edges out_edges =
     (if length in_edges \<noteq> 3 then Inl ExpectedThreeInputs
      else if length out_edges \<noteq> 1 then Inl ExpectedOneOutput
      else if length out_edges \<noteq> 1 then Inl ExpectedOneOutputRank1
      else Inr ())"

subsection \<open>ExpandGerPure: building the graph\<close>

text \<open>
  \<^verbatim>\<open>_get_matmul_operands\<close> (of \<^verbatim>\<open>matmul.py\<close>) is not among the sources; what \<^verbatim>\<open>make_sdfg\<close> uses of
  its result, the shape and the storage of the outer arrays of \<^verbatim>\<open>_x\<close> and \<^verbatim>\<open>_y\<close>, is
  an argument of the model. The storage classes are a type parameter.
\<close>

record 's array_desc =
  arr_shape :: "nat list"
  arr_storage :: 's

datatype memlet_idx =
    Idx_i0_i1    \<comment> \<open>\<^verbatim>\<open>'__i0, __i1'\<close>\<close>
  | Idx_0_i1     \<comment> \<open>\<^verbatim>\<open>'0, __i1'\<close>\<close>
  | Idx_i0_0     \<comment> \<open>\<^verbatim>\<open>'__i0, 0'\<close>\<close>
  | Idx_i1       \<comment> \<open>\<^verbatim>\<open>'__i1'\<close>\<close>

datatype 'a mul_program =
    Mul_x_y              \<comment> \<open>\<^verbatim>\<open>__out = __x * __y\<close>\<close>
  | Mul_alpha_x_y 'a     \<comment> \<open>\<^verbatim>\<open>__out = alpha * __x * __y\<close>\<close>

text \<open>The chain "manually broadcasting C to [M, N]", as a function of \<^verbatim>\<open>shape_c\<close>.\<close>

definition broadcast_memlet :: "nat list \<Rightarrow> nat \<Rightarrow> nat \<Rightarrow> ger_error + memlet_idx" where
  "broadcast_memlet shape_c M N =
     (if shape_c = [M, N] then Inr Idx_i0_i1
      else if shape_c = [1, N] then Inr Idx_0_i1
      else if shape_c = [M, 1] then Inr Idx_i0_0
      else if shape_c = [N] then Inr Idx_i1
      else Inl (CouldNotBroadcast M N))"

record ('a, 's) pure_sdfg =
  sdfg_M :: nat
  sdfg_N :: nat
  sdfg_shape_c :: "nat list"            \<comment> \<open>declared shape of \<^verbatim>\<open>_A\<close> and \<^verbatim>\<open>_res\<close>\<close>
  sdfg_storage :: 's
  sdfg_mul_program :: "'a mul_program"
  sdfg_memlet_idx :: memlet_idx

definition ExpandGerPure_make_sdfg ::
  "'a::comm_ring_1 \<Rightarrow> 's array_desc \<Rightarrow> 's array_desc \<Rightarrow> ger_error + ('a, 's) pure_sdfg" where
  "ExpandGerPure_make_sdfg alpha outer_array_x outer_array_y =
     (let shape_x = arr_shape outer_array_x; shape_y = arr_shape outer_array_y in
      if length shape_x \<noteq> 1 \<or> length shape_y \<noteq> 1 then Inl VectorsSingleDimension
      else
        let M = shape_x ! 0; N = shape_y ! 0; shape_c = [M, N] in
        if arr_storage outer_array_x \<noteq> arr_storage outer_array_y then Inl SameStorage
        else
          let mul = (if alpha = 1 then Mul_x_y else Mul_alpha_x_y alpha) in
          case broadcast_memlet shape_c M N of
            Inl e \<Rightarrow> Inl e
          | Inr memlet_idx \<Rightarrow>
              Inr \<lparr>sdfg_M = M, sdfg_N = N, sdfg_shape_c = shape_c,
                   sdfg_storage = arr_storage outer_array_x,
                   sdfg_mul_program = mul, sdfg_memlet_idx = memlet_idx\<rparr>)"

definition ExpandGerPure_expansion ::
  "('a::comm_ring_1, 't) Ger \<Rightarrow> in_edge list \<Rightarrow> out_edge list \<Rightarrow>
   's array_desc \<Rightarrow> 's array_desc \<Rightarrow> ger_error + ('a, 's) pure_sdfg" where
  "ExpandGerPure_expansion node in_edges out_edges outer_array_x outer_array_y =
     (case validate in_edges out_edges of
        Inl e \<Rightarrow> Inl e
      | Inr _ \<Rightarrow>
          if ger_dtype node = None then Inl DataTypeMustBeSet
          else ExpandGerPure_make_sdfg (ger_alpha node) outer_array_x outer_array_y)"

subsection \<open>ExpandGerPure: running the graph\<close>

text \<open>
  The operand \<^verbatim>\<open>_A\<close> is a matrix or, in the last broadcast form, a vector. The graph has
  three mapped tasklets over \<^verbatim>\<open>__i0 < M\<close>, \<^verbatim>\<open>__i1 < N\<close>: \<^verbatim>\<open>_GER_init\<close> writes 0 to the
  transient, \<^verbatim>\<open>_GER_outer_\<close> adds the product to it (write-conflict resolution
  \<^verbatim>\<open>lambda x, y: x + y\<close>), and \<^verbatim>\<open>_GER_add_\<close> adds the entry of \<^verbatim>\<open>_A\<close> that the memlet
  index selects.
\<close>

datatype 'a ndarray = Arr1 "'a list" | Arr2 "'a list list"

fun has_shape :: "'a ndarray \<Rightarrow> nat list \<Rightarrow> bool" where
  "has_shape (Arr1 v) s = (s = [length v])"
| "has_shape (Arr2 rows) [r, c] = (length rows = r \<and> list_all (\<lambda>row. length row = c) rows)"
| "has_shape (Arr2 rows) s = False"

fun mul_apply :: "'a::comm_ring_1 mul_program \<Rightarrow> 'a \<Rightarrow> 'a \<Rightarrow> 'a" where
  "mul_apply Mul_x_y x y = x * y"
| "mul_apply (Mul_alpha_x_y alpha) x y = alpha * x * y"

fun memlet_read :: "memlet_idx \<Rightarrow> 'a::comm_ring_1 ndarray \<Rightarrow> nat \<Rightarrow> nat \<Rightarrow> 'a" where
  "memlet_read Idx_i0_i1 (Arr2 rows) i0 i1 = rows ! i0 ! i1"
| "memlet_read Idx_0_i1 (Arr2 rows) i0 i1 = rows ! 0 ! i1"
| "memlet_read Idx_i0_0 (Arr2 rows) i0 i1 = rows ! i0 ! 0"
| "memlet_read Idx_i1 (Arr1 v) i0 i1 = v ! i1"
| "memlet_read Idx_i1 (Arr2 rows) i0 i1 = 0"
| "memlet_read idx (Arr1 v) i0 i1 = 0"

definition GER_init :: "nat \<Rightarrow> nat \<Rightarrow> 'a::comm_ring_1 list list" where
  "GER_init M N = replicate M (replicate N 0)"

definition GER_outer ::
  "'a::comm_ring_1 mul_program \<Rightarrow> nat \<Rightarrow> nat \<Rightarrow> 'a list \<Rightarrow> 'a list \<Rightarrow> 'a list list \<Rightarrow> 'a list list" where
  "GER_outer mul M N x y tmp =
     map (\<lambda>i0. map (\<lambda>i1. tmp ! i0 ! i1 + mul_apply mul (x ! i0) (y ! i1)) [0..<N]) [0..<M]"

definition GER_add ::
  "memlet_idx \<Rightarrow> nat \<Rightarrow> nat \<Rightarrow> 'a::comm_ring_1 ndarray \<Rightarrow> 'a list list \<Rightarrow> 'a list list" where
  "GER_add idx M N A tmp =
     map (\<lambda>i0. map (\<lambda>i1. memlet_read idx A i0 i1 + tmp ! i0 ! i1) [0..<N]) [0..<M]"

definition run_pure ::
  "('a::comm_ring_1, 's) pure_sdfg \<Rightarrow> 'a list \<Rightarrow> 'a list \<Rightarrow> 'a ndarray \<Rightarrow> ger_error + 'a list list" where
  "run_pure sd x y A =
     (let M = sdfg_M sd; N = sdfg_N sd in
      if length x = M \<and> length y = N \<and> has_shape A (sdfg_shape_c sd)
      then Inr (GER_add (sdfg_memlet_idx sd) M N A
                  (GER_outer (sdfg_mul_program sd) M N x y (GER_init M N)))
      else Inl ArgumentShape)"

text \<open>
  The pure expansion end to end, on operands of one storage class whose shapes are those of
  the data: build the graph, then run it.
\<close>

definition ger_pure ::
  "'a::comm_ring_1 \<Rightarrow> 'a list \<Rightarrow> 'a list \<Rightarrow> 'a list list \<Rightarrow> ger_error + 'a list list" where
  "ger_pure alpha x y A =
     (case ExpandGerPure_make_sdfg alpha
             \<lparr>arr_shape = [length x], arr_storage = ()\<rparr>
             \<lparr>arr_shape = [length y], arr_storage = ()\<rparr> of
        Inl e \<Rightarrow> Inl e
      | Inr sd \<Rightarrow> run_pure sd x y (Arr2 A))"


text \<open>
  The shapes the specification lets validation accept for \<^verbatim>\<open>_A\<close>, given \<^verbatim>\<open>x\<close> of size
  \<open>[M]\<close> and \<^verbatim>\<open>y\<close> of size \<open>[N]\<close>: the full form and the four broadcast forms.
\<close>

definition spec_shapes_match :: "nat list \<Rightarrow> nat list \<Rightarrow> nat list \<Rightarrow> bool" where
  "spec_shapes_match size_x size_y size_a =
     (case (size_x, size_y) of
        ([M], [N]) \<Rightarrow> size_a \<in> set [[M, N], [1, N], [M, 1], [N], [M]]
      | _ \<Rightarrow> False)"

section \<open>Expand_GER_FPGA_Streaming_RowTiles\<close>

text \<open>
  \<^verbatim>\<open>make_sdfg\<close> builds the graph \<^verbatim>\<open>ger_fpga_stream_rowTiles\<close>: three nested maps
  (\<^verbatim>\<open>i\<close> over \<^verbatim>\<open>n/nTile\<close>, \<^verbatim>\<open>j\<close> over \<^verbatim>\<open>m/mTile\<close>, \<^verbatim>\<open>ii\<close> over \<^verbatim>\<open>nTile\<close>) around
  the nested graph \<^verbatim>\<open>tile_sdfg\<close>, which holds the map \<^verbatim>\<open>jj\<close> over \<^verbatim>\<open>mTile/vecWidthM\<close>
  around the nested graph \<^verbatim>\<open>vectorize_inner_graph\<close>. The model runs these graphs on a
  state: the four streams, the two buffers that outlive one execution of a nested graph
  (\<^verbatim>\<open>y_buf_row\<close> of the outer graph, \<^verbatim>\<open>x_buf\<close> of the tile graph, kept as storage that is
  allocated once), and the log of the accesses to \<^verbatim>\<open>y\<close>. A stream of vectors is a list of
  lane lists; the stream \<^verbatim>\<open>_y\<close> of one-lane vectors is the list of its lanes. Arrays
  written and read within one execution (\<^verbatim>\<open>y_buf\<close>, \<^verbatim>\<open>A_out_buf\<close>) are local values.
\<close>

datatype 'a event =
    ReadY nat nat nat 'a
      \<comment> \<open>state \<^verbatim>\<open>read_y_reduceTile\<close> at \<open>(i, j, ii)\<close>: the element popped from \<^verbatim>\<open>_y_tile\<close>
          and written to \<^verbatim>\<open>_y_buf_tile[ii]\<close>\<close>
  | ReadEmpty nat nat nat
      \<comment> \<open>state \<^verbatim>\<open>read_empty_reduceTile\<close> at \<open>(i, j, ii)\<close>\<close>
  | YBufRead nat nat nat nat 'a
      \<comment> \<open>\<^verbatim>\<open>compute_task\<close> at \<open>(i, j, ii, jj)\<close>: the value of \<^verbatim>\<open>y_con\<close>, read from
          \<^verbatim>\<open>_y_unroll[ii]\<close>\<close>

record 'a engine =
  A_strm :: "'a list list"
  x_strm :: "'a list list"
  y_strm :: "'a list"
  res_strm :: "'a list list"
  y_buf_row :: "'a list"
  x_buf :: "'a list"
  events :: "'a event list"

definition bind_err :: "ger_error + 'b \<Rightarrow> ('b \<Rightarrow> ger_error + 'c) \<Rightarrow> ger_error + 'c" where
  "bind_err r f = (case r of Inl e \<Rightarrow> Inl e | Inr v \<Rightarrow> f v)"

definition pop :: "'b list \<Rightarrow> ger_error + ('b \<times> 'b list)" where
  "pop q = (case q of [] \<Rightarrow> Inl StreamUnderrun | v # rest \<Rightarrow> Inr (v, rest))"

definition read_elem :: "'b list \<Rightarrow> nat \<Rightarrow> ger_error + 'b" where
  "read_elem buf k = (if k < length buf then Inr (buf ! k) else Inl OutOfBounds)"

definition write_elem :: "'b list \<Rightarrow> nat \<Rightarrow> 'b \<Rightarrow> ger_error + 'b list" where
  "write_elem buf k v = (if k < length buf then Inr (buf[k := v]) else Inl OutOfBounds)"

text \<open>A vector access at index \<open>k\<close> of an array of scalars covers the lanes from \<open>k\<close> on.\<close>

definition read_vec :: "'b list \<Rightarrow> nat \<Rightarrow> nat \<Rightarrow> ger_error + 'b list" where
  "read_vec buf k w = (if k + w \<le> length buf then Inr (take w (drop k buf)) else Inl OutOfBounds)"

definition write_vec :: "'b list \<Rightarrow> nat \<Rightarrow> 'b list \<Rightarrow> ger_error + 'b list" where
  "write_vec buf k v =
     (if k + length v \<le> length buf then Inr (take k buf @ v @ drop (k + length v) buf)
      else Inl OutOfBounds)"

text \<open>A map scope: the body once for every index, in order, stopping at the first fault.\<close>

fun for_map :: "nat list \<Rightarrow> (nat \<Rightarrow> 's \<Rightarrow> ger_error + 's) \<Rightarrow> 's \<Rightarrow> ger_error + 's" where
  "for_map [] body s = Inr s"
| "for_map (k # ks) body s =
     (case body k s of Inl e \<Rightarrow> Inl e | Inr s' \<Rightarrow> for_map ks body s')"

subsection \<open>The graph of make_unrolledCompute\<close>

text \<open>
  State \<^verbatim>\<open>readX_state\<close> (taken when \<^verbatim>\<open>ii == 0\<close>) copies one vector of \<^verbatim>\<open>_x_unroll\<close> to
  \<^verbatim>\<open>_x_buf_unroll[jj * vecWidthM]\<close>; \<^verbatim>\<open>compute_state\<close> runs the tasklet on one vector of
  \<^verbatim>\<open>_A_unroll\<close>, on \<^verbatim>\<open>_x_buf_unroll[jj * vecWidthM]\<close> and on \<^verbatim>\<open>_y_unroll[ii]\<close>;
  \<^verbatim>\<open>streamOut_state\<close> pushes the result to \<^verbatim>\<open>_A_out_unroll\<close>. The inner graph declares
  \<^verbatim>\<open>_x_buf_unroll\<close> with \<^verbatim>\<open>nTile\<close> elements; its storage is the array \<^verbatim>\<open>x_buf\<close> of the tile
  graph, of \<^verbatim>\<open>mTile\<close> elements, and that is the bound the model checks.
\<close>

definition compute_task :: "'a::comm_ring_1 \<Rightarrow> 'a list \<Rightarrow> 'a list \<Rightarrow> 'a \<Rightarrow> 'a list" where
  "compute_task a A_con x_con y_con = map2 (\<lambda>A x. A + x * y_con * a) A_con x_con"

definition readX_state :: "nat \<Rightarrow> nat \<Rightarrow> 'a engine \<Rightarrow> ger_error + 'a engine" where
  "readX_state w jj s =
     bind_err (pop (x_strm s)) (\<lambda>(v, rest).
     bind_err (write_vec (x_buf s) (jj * w) v) (\<lambda>b.
     Inr (s\<lparr>x_strm := rest, x_buf := b\<rparr>)))"

definition compute_state ::
  "nat \<Rightarrow> 'a::comm_ring_1 \<Rightarrow> nat \<Rightarrow> nat \<Rightarrow> nat \<Rightarrow> nat \<Rightarrow> 'a engine \<Rightarrow> ger_error + ('a list \<times> 'a engine)" where
  "compute_state w a i j ii jj s =
     bind_err (pop (A_strm s)) (\<lambda>(A_con, rest).
     bind_err (read_vec (x_buf s) (jj * w) w) (\<lambda>x_con.
     bind_err (read_elem (y_buf_row s) ii) (\<lambda>y_con.
     Inr (compute_task a A_con x_con y_con,
          s\<lparr>A_strm := rest, events := events s @ [YBufRead i j ii jj y_con]\<rparr>))))"

definition streamOut_state :: "'a list \<Rightarrow> 'a engine \<Rightarrow> ger_error + 'a engine" where
  "streamOut_state A_out_buf s = Inr (s\<lparr>res_strm := res_strm s @ [A_out_buf]\<rparr>)"

definition vectorize_inner_graph ::
  "nat \<Rightarrow> 'a::comm_ring_1 \<Rightarrow> nat \<Rightarrow> nat \<Rightarrow> nat \<Rightarrow> nat \<Rightarrow> 'a engine \<Rightarrow> ger_error + 'a engine" where
  "vectorize_inner_graph w a i j ii jj s =
     bind_err (if ii = 0 then readX_state w jj s else Inr s) (\<lambda>s1.
     bind_err (compute_state w a i j ii jj s1) (\<lambda>(A_out_buf, s2).
     streamOut_state A_out_buf s2))"

subsection \<open>The graph of make_computeTileRowStreamed\<close>

text \<open>
  From \<^verbatim>\<open>init_state_tile\<close> the edge \<^verbatim>\<open>j == 0\<close> leads to \<^verbatim>\<open>read_y_reduceTile\<close>, which moves
  one element of \<^verbatim>\<open>_y_tile\<close> through the register \<^verbatim>\<open>y_buf\<close> to \<^verbatim>\<open>_y_buf_tile[ii]\<close>; the edge
  \<^verbatim>\<open>j != 0\<close> leads to the empty state \<^verbatim>\<open>read_empty_reduceTile\<close>. Both continue to the
  compute state with the map \<^verbatim>\<open>innerCompute_map\<close>.
\<close>

definition read_y_reduceTile :: "nat \<Rightarrow> nat \<Rightarrow> nat \<Rightarrow> 'a engine \<Rightarrow> ger_error + 'a engine" where
  "read_y_reduceTile i j ii s =
     bind_err (pop (y_strm s)) (\<lambda>(y_buf, rest).
     bind_err (write_elem (y_buf_row s) ii y_buf) (\<lambda>b.
     Inr (s\<lparr>y_strm := rest, y_buf_row := b, events := events s @ [ReadY i j ii y_buf]\<rparr>)))"

definition read_empty_reduceTile :: "nat \<Rightarrow> nat \<Rightarrow> nat \<Rightarrow> 'a engine \<Rightarrow> ger_error + 'a engine" where
  "read_empty_reduceTile i j ii s = Inr (s\<lparr>events := events s @ [ReadEmpty i j ii]\<rparr>)"

definition tile_sdfg ::
  "nat \<Rightarrow> nat \<Rightarrow> 'a::comm_ring_1 \<Rightarrow> nat \<Rightarrow> nat \<Rightarrow> nat \<Rightarrow> 'a engine \<Rightarrow> ger_error + 'a engine" where
  "tile_sdfg mTile w a i j ii s =
     bind_err (if j = 0 then read_y_reduceTile i j ii s else read_empty_reduceTile i j ii s)
       (for_map [0..<mTile div w] (vectorize_inner_graph w a i j ii))"

subsection \<open>The graph of make_sdfg\<close>

definition ger_fpga_stream_rowTiles ::
  "nat \<Rightarrow> nat \<Rightarrow> nat \<Rightarrow> nat \<Rightarrow> nat \<Rightarrow> 'a::comm_ring_1 \<Rightarrow> 'a engine \<Rightarrow> ger_error + 'a engine" where
  "ger_fpga_stream_rowTiles nTile mTile n m w a =
     for_map [0..<n div nTile] (\<lambda>i.
       for_map [0..<m div mTile] (\<lambda>j.
         for_map [0..<nTile] (\<lambda>ii. tile_sdfg mTile w a i j ii)))"

definition Expand_GER_FPGA_Streaming_RowTiles_expansion ::
  "('a, 't) Ger \<Rightarrow> in_edge list \<Rightarrow> out_edge list \<Rightarrow>
   ger_error + (nat \<times> nat \<times> nat \<times> nat \<times> nat \<times> 'a)" where
  "Expand_GER_FPGA_Streaming_RowTiles_expansion node in_edges out_edges =
     (case validate in_edges out_edges of
        Inl e \<Rightarrow> Inl e
      | Inr _ \<Rightarrow>
          if ger_dtype node = None then Inl DataTypeMustBeSet
          else Inr (ger_nTile node, ger_mTile node, ger_n node, ger_m node,
                    ger_vecWidthM node, ger_a node))"

subsection \<open>The stream adapters\<close>

text \<open>
  The readers and the writer that connect host memory to the streams belong to
  \<^verbatim>\<open>dace.libraries.blas.utility.fpga_helper\<close>, which is not among the sources.
\<close>

text \<open>
  Modelled from the spec: \<^verbatim>\<open>StreamReadVector\<close> (the source is missing); a vector of
  \<open>len\<close> elements is streamed in packets of \<open>veclen\<close> lanes, the whole vector \<open>repeat\<close>
  times.
\<close>

definition StreamReadVector :: "'a list \<Rightarrow> nat \<Rightarrow> nat \<Rightarrow> nat \<Rightarrow> 'a list list" where
  "StreamReadVector src len veclen repeat =
     concat (replicate repeat
       (map (\<lambda>k. map (\<lambda>l. src ! (k * veclen + l)) [0..<veclen]) [0..<len div veclen]))"

text \<open>
  Modelled from the spec: \<^verbatim>\<open>StreamReadMatrixFull\<close> with \<^verbatim>\<open>tileByRow=True\<close> (the source is
  missing); the matrix is streamed by row-blocks, then column-tiles, then the rows of the
  tile, each row of a tile in packets of \<open>vecWidth\<close> contiguous elements.
\<close>

definition StreamReadMatrixFull ::
  "'a list list \<Rightarrow> nat \<Rightarrow> nat \<Rightarrow> nat \<Rightarrow> nat \<Rightarrow> nat \<Rightarrow> 'a list list" where
  "StreamReadMatrixFull src n m nTile mTile vecWidth =
     concat (map (\<lambda>i. concat (map (\<lambda>j. concat (map (\<lambda>ii.
       map (\<lambda>jj. map (\<lambda>l. src ! (i * nTile + ii) ! (j * mTile + jj * vecWidth + l)) [0..<vecWidth])
         [0..<mTile div vecWidth])
       [0..<nTile])) [0..<m div mTile])) [0..<n div nTile])"

text \<open>
  Modelled from the spec: \<^verbatim>\<open>StreamWriteMatrixFull\<close> with \<^verbatim>\<open>tileByRow=True\<close> (the source
  is missing); the entry at row \<open>r\<close> and column \<open>c\<close> of the matrix is taken from the packet
  and the lane that hold it in the order of the reader.
\<close>

definition StreamWriteMatrixFull ::
  "'a list list \<Rightarrow> nat \<Rightarrow> nat \<Rightarrow> nat \<Rightarrow> nat \<Rightarrow> nat \<Rightarrow> 'a list list" where
  "StreamWriteMatrixFull strm n m nTile mTile vecWidth =
     map (\<lambda>r. map (\<lambda>c.
       strm ! (((r div nTile * (m div mTile) + c div mTile) * nTile + r mod nTile)
                 * (mTile div vecWidth) + c mod mTile div vecWidth)
            ! (c mod mTile mod vecWidth)) [0..<m]) [0..<n]"

subsection \<open>The streamed expansion end to end\<close>

text \<open>
  The readers of \<^verbatim>\<open>getStreamReader\<close> feed the graph: \<^verbatim>\<open>_x\<close> with \<^verbatim>\<open>veclen = vecWidthM\<close> and
  \<^verbatim>\<open>repeat = n/nTile\<close>, \<^verbatim>\<open>_y\<close> with the defaults (one lane, no repeat), \<^verbatim>\<open>_A\<close> tiled by
  row. The buffers start with arbitrary contents, given by \<open>junk\<close>.
\<close>

definition engine_init ::
  "nat \<Rightarrow> nat \<Rightarrow> nat \<Rightarrow> nat \<Rightarrow> nat \<Rightarrow> (nat \<Rightarrow> 'a) \<Rightarrow> 'a list \<Rightarrow> 'a list \<Rightarrow> 'a list list \<Rightarrow> 'a engine" where
  "engine_init nTile mTile n m w junk x y A =
     \<lparr>A_strm = StreamReadMatrixFull A n m nTile mTile w,
      x_strm = StreamReadVector x m w (n div nTile),
      y_strm = concat (StreamReadVector y n 1 1),
      res_strm = [],
      y_buf_row = map junk [0..<nTile],
      x_buf = map (\<lambda>k. junk (nTile + k)) [0..<mTile],
      events = []\<rparr>"

definition run_fpga ::
  "nat \<Rightarrow> nat \<Rightarrow> nat \<Rightarrow> nat \<Rightarrow> nat \<Rightarrow> 'a::comm_ring_1 \<Rightarrow> (nat \<Rightarrow> 'a) \<Rightarrow>
   'a list \<Rightarrow> 'a list \<Rightarrow> 'a list list \<Rightarrow> ger_error + 'a engine" where
  "run_fpga nTile mTile n m w a junk x y A =
     (if length x = m \<and> length y = n \<and> has_shape (Arr2 A) [n, m]
      then ger_fpga_stream_rowTiles nTile mTile n m w a (engine_init nTile mTile n m w junk x y A)
      else Inl ArgumentShape)"

definition ger_fpga ::
  "nat \<Rightarrow> nat \<Rightarrow> nat \<Rightarrow> nat \<Rightarrow> nat \<Rightarrow> 'a::comm_ring_1 \<Rightarrow> (nat \<Rightarrow> 'a) \<Rightarrow>
   'a list \<Rightarrow> 'a list \<Rightarrow> 'a list list \<Rightarrow> ger_error + 'a list list" where
  "ger_fpga nTile mTile n m w a junk x y A =
     (case run_fpga nTile mTile n m w a junk x y A of
        Inl e \<Rightarrow> Inl e
      | Inr s \<Rightarrow> Inr (StreamWriteMatrixFull (res_strm s) n m nTile mTile w))"

text \<open>A configuration is valid when the sizes are positive and the tiles divide.\<close>

definition valid_config :: "nat \<Rightarrow> nat \<Rightarrow> nat \<Rightarrow> nat \<Rightarrow> nat \<Rightarrow> bool" where
  "valid_config nTile mTile n m w =
     (0 < n \<and> 0 < m \<and> 0 < nTile \<and> 0 < mTile \<and> 0 < w \<and> nTile dvd n \<and> mTile dvd m \<and> w dvd mTile)"

subsection \<open>Closed forms of a run\<close>

text \<open>
  The proofs describe a complete run by closed forms: the packets the readers put on the
  streams, the packets one execution of the tile graph emits, the entries it adds to the
  log, and their concatenation over the three maps.
\<close>

definition tile_res :: "'a::comm_ring_1 \<Rightarrow> nat \<Rightarrow> (nat \<Rightarrow> 'a list) \<Rightarrow> (nat \<Rightarrow> 'a list) \<Rightarrow> 'a \<Rightarrow> 'a list list" where
  "tile_res a J Av Xv yv = map (\<lambda>jj. compute_task a (Av jj) (Xv jj) yv) [0..<J]"

definition tile_events :: "nat \<Rightarrow> nat \<Rightarrow> nat \<Rightarrow> nat \<Rightarrow> 'a \<Rightarrow> 'a event list" where
  "tile_events J i j ii yv =
     (if j = 0 then ReadY i j ii yv else ReadEmpty i j ii) # map (\<lambda>jj. YBufRead i j ii jj yv) [0..<J]"

definition A_packet :: "'a list list \<Rightarrow> nat \<Rightarrow> nat \<Rightarrow> nat \<Rightarrow> nat \<Rightarrow> nat \<Rightarrow> nat \<Rightarrow> nat \<Rightarrow> 'a list" where
  "A_packet A nTile mTile w i j ii jj =
     map (\<lambda>l. A ! (i * nTile + ii) ! (j * mTile + jj * w + l)) [0..<w]"

definition x_packet :: "'a list \<Rightarrow> nat \<Rightarrow> nat \<Rightarrow> 'a list" where
  "x_packet x w k = map (\<lambda>l. x ! (k * w + l)) [0..<w]"

definition engine_res ::
  "nat \<Rightarrow> nat \<Rightarrow> nat \<Rightarrow> nat \<Rightarrow> nat \<Rightarrow> 'a::comm_ring_1 \<Rightarrow> 'a list \<Rightarrow> 'a list \<Rightarrow> 'a list list \<Rightarrow> 'a list list" where
  "engine_res nTile mTile n m w a x y A =
     concat (map (\<lambda>i. concat (map (\<lambda>j. concat (map (\<lambda>ii.
       tile_res a (mTile div w) (A_packet A nTile mTile w i j ii)
         (\<lambda>jj. x_packet x w (j * (mTile div w) + jj)) (y ! (i * nTile + ii)))
       [0..<nTile])) [0..<m div mTile])) [0..<n div nTile])"

definition engine_events :: "nat \<Rightarrow> nat \<Rightarrow> nat \<Rightarrow> nat \<Rightarrow> nat \<Rightarrow> 'a list \<Rightarrow> 'a event list" where
  "engine_events nTile mTile n m w y =
     concat (map (\<lambda>i. concat (map (\<lambda>j. concat (map (\<lambda>ii.
       tile_events (mTile div w) i j ii (y ! (i * nTile + ii)))
       [0..<nTile])) [0..<m div mTile])) [0..<n div nTile])"

subsection \<open>Counting in the log\<close>

text \<open>
  The row-block an entry of the log belongs to, the kind of an entry, and the number of
  entries of a run that satisfy a predicate; a run that ended in a fault has no entries.
\<close>

fun event_block :: "'a event \<Rightarrow> nat" where
  "event_block (ReadY i j ii v) = i"
| "event_block (ReadEmpty i j ii) = i"
| "event_block (YBufRead i j ii jj v) = i"

fun is_ReadY :: "'a event \<Rightarrow> bool" where
  "is_ReadY (ReadY i j ii v) = True"
| "is_ReadY e = False"



definition ReadY_in :: "nat \<Rightarrow> 'a event \<Rightarrow> bool" where
  "ReadY_in i e = (is_ReadY e \<and> event_block e = i)"



definition count_events :: "('a event \<Rightarrow> bool) \<Rightarrow> 'a event list \<Rightarrow> nat" where
  "count_events P evs = length (filter P evs)"


text \<open>Buffers that start out holding zeros, for concrete runs.\<close>

definition zero_junk :: "nat \<Rightarrow> 'a::comm_ring_1" where
  "zero_junk k = 0"

section \<open>Properties of validation and of the pure expansion\<close>

subsection \<open>Validation\<close>

text \<open>
  C4, as the code has it: validation fails exactly when the node does not have three
  incoming edges or does not have one outgoing edge, whatever the connectors and the
  sizes on the edges are; no comparison of operand shapes takes part. Both expansions
  pass a validation error on.
\<close>

theorem validate_counts_edges_only:
  "(length in_edges \<noteq> 3 \<longrightarrow> validate in_edges out_edges = Inl ExpectedThreeInputs) \<and>
   (length in_edges = 3 \<and> length out_edges \<noteq> 1 \<longrightarrow>
      validate in_edges out_edges = Inl ExpectedOneOutput) \<and>
   (length in_edges = 3 \<and> length out_edges = 1 \<longrightarrow> validate in_edges out_edges = Inr ()) \<and>
   (\<forall>e. validate in_edges out_edges = Inl e \<longrightarrow>
      ExpandGerPure_expansion node in_edges out_edges ax ay = Inl e \<and>
      Expand_GER_FPGA_Streaming_RowTiles_expansion node in_edges out_edges = Inl e)"
  by (simp add: validate_def ExpandGerPure_expansion_def
      Expand_GER_FPGA_Streaming_RowTiles_expansion_def)

theorem validate_counts_edges_only_witness:
  "validate [(''_x'', [5]), (''_y'', [7])] [[2, 3]] = Inl ExpectedThreeInputs \<and>
   validate [(''_x'', [5]), (''_y'', [7]), (''_A'', [5, 7])] [] = Inl ExpectedOneOutput \<and>
   validate [(''_x'', [5]), (''_y'', [7]), (''_A'', [5, 7])] [[5, 7]] = Inr ()"
  using validate_counts_edges_only
          [of "[(''_x'', [5]), (''_y'', [7])]" "[[2, 3]]"]
        validate_counts_edges_only
          [of "[(''_x'', [5]), (''_y'', [7]), (''_A'', [5, 7])]" "[]"]
        validate_counts_edges_only
          [of "[(''_x'', [5]), (''_y'', [7]), (''_A'', [5, 7])]" "[[5, 7]]"]
  by fastforce

text \<open>
  C4 as stated fails: three inputs and one output whose sizes fit none of the accepted
  forms pass validation.
\<close>

theorem validate_shape_mismatch_counterexample:
  "validate [(''_x'', [5]), (''_y'', [7]), (''_A'', [2, 3])] [[2, 3]] = Inr () \<and>
   \<not> spec_shapes_match [5] [7] [2, 3]"
  by (simp add: validate_def spec_shapes_match_def)

subsection \<open>The checks of ExpandGerPure.make_sdfg\<close>

lemma broadcast_memlet_full [simp]: "broadcast_memlet [M, N] M N = Inr Idx_i0_i1"
  by (simp add: broadcast_memlet_def)



text \<open>
  C5: when the storage classes of \<open>x\<close> and \<open>y\<close> differ, \<^verbatim>\<open>make_sdfg\<close> and the expansion
  end in an error and return no graph; for vectors of one dimension the error of
  \<^verbatim>\<open>make_sdfg\<close> is "Input vectors must have same storage." When the storage classes are
  the same this error is not raised.
\<close>

theorem make_sdfg_same_storage:
  "(arr_storage ax \<noteq> arr_storage ay \<longrightarrow>
      (\<exists>e. ExpandGerPure_make_sdfg alpha ax ay = Inl e) \<and>
      (\<exists>e. ExpandGerPure_expansion node in_edges out_edges ax ay = Inl e) \<and>
      (length (arr_shape ax) = 1 \<and> length (arr_shape ay) = 1 \<longrightarrow>
         ExpandGerPure_make_sdfg alpha ax ay = Inl SameStorage)) \<and>
   (arr_storage ax = arr_storage ay \<longrightarrow>
      ExpandGerPure_make_sdfg alpha ax ay \<noteq> Inl SameStorage \<and>
      ExpandGerPure_expansion node in_edges out_edges ax ay \<noteq> Inl SameStorage)"
  by (auto simp add: ExpandGerPure_make_sdfg_def ExpandGerPure_expansion_def Let_def
      validate_def split: sum.splits)

theorem make_sdfg_same_storage_witness:
  "ExpandGerPure_make_sdfg (2::int) \<lparr>arr_shape = [2], arr_storage = True\<rparr>
      \<lparr>arr_shape = [4], arr_storage = False\<rparr> = Inl SameStorage \<and>
   ExpandGerPure_make_sdfg (2::int) \<lparr>arr_shape = [2], arr_storage = True\<rparr>
      \<lparr>arr_shape = [4], arr_storage = True\<rparr> \<noteq> Inl SameStorage"
  using make_sdfg_same_storage
          [of "\<lparr>arr_shape = [2], arr_storage = True\<rparr>"
              "\<lparr>arr_shape = [4], arr_storage = False\<rparr>" "2::int"]
        make_sdfg_same_storage
          [of "\<lparr>arr_shape = [2], arr_storage = True\<rparr>"
              "\<lparr>arr_shape = [4], arr_storage = True\<rparr>" "2::int"]
  by fastforce

subsection \<open>The broadcasting chain\<close>

text \<open>
  Inside \<^verbatim>\<open>make_sdfg\<close> the chain is applied to \<^verbatim>\<open>shape_c = (M, N)\<close>, which is built from
  the lengths of \<open>x\<close> and \<open>y\<close>: there the first branch is always taken.
\<close>

lemma make_sdfg_memlet_idx:
  "ExpandGerPure_make_sdfg alpha ax ay = Inr sd \<Longrightarrow>
     sdfg_memlet_idx sd = Idx_i0_i1 \<and> sdfg_shape_c sd = [sdfg_M sd, sdfg_N sd]"
  by (auto simp add: ExpandGerPure_make_sdfg_def Let_def split: if_splits)






section \<open>Properties of the streamed expansion\<close>

subsection \<open>Auxiliary facts on lists and map scopes\<close>

lemma bind_err_Inr [simp]: "bind_err (Inr v) f = f v"
  by (simp add: bind_err_def)

lemma bind_err_Inl [simp]: "bind_err (Inl e) f = Inl e"
  by (simp add: bind_err_def)

lemma for_map_append:
  "for_map (ks @ ls) body s = bind_err (for_map ks body s) (for_map ls body)"
  by (induction ks arbitrary: s) (auto split: sum.splits)

lemma for_map_upt_Suc:
  "for_map [0..<Suc K] body s = bind_err (for_map [0..<K] body s) (body K)"
  by (cases "for_map [0..<K] body s") (simp_all add: for_map_append split: sum.splits)

lemma length_concat_upt:
  "\<forall>k<J. length (f k) = w \<Longrightarrow> K \<le> J \<Longrightarrow> length (concat (map f [0..<K])) = K * w"
  by (induction K) auto

lemma map_upt_Cons: "K < N \<Longrightarrow> map f [K..<N] = f K # map f [Suc K..<N]"
  by (simp add: upt_conv_Cons)

lemma read_concat_uniform:
  assumes "\<forall>k<J. length (Xv k) = w" and "jj < J"
  shows "take w (drop (jj * w) (concat (map Xv [0..<J]))) = Xv jj"
proof -
  have split: "[0..<J] = [0..<jj] @ jj # [Suc jj..<J]"
    using assms(2) by (metis le_add1 le_add_same_cancel1 less_imp_add_positive upt_add_eq_append upt_conv_Cons)
  have len: "length (concat (map Xv [0..<jj])) = jj * w"
    using assms by (simp add: length_concat_upt)
  show ?thesis
    using assms len by (simp add: split)
qed

subsection \<open>One execution of the inner graph and of the tile graph\<close>

lemma inner_step_fill:
  assumes "length xv = w" and "jj * w + w \<le> length xb" and "0 < length yb"
  shows "vectorize_inner_graph w a i j 0 jj
           \<lparr>A_strm = av # As, x_strm = xv # xs, y_strm = ys, res_strm = res,
            y_buf_row = yb, x_buf = xb, events = ev\<rparr> =
         Inr \<lparr>A_strm = As, x_strm = xs, y_strm = ys,
              res_strm = res @ [compute_task a av xv (yb ! 0)],
              y_buf_row = yb, x_buf = take (jj * w) xb @ xv @ drop (jj * w + w) xb,
              events = ev @ [YBufRead i j 0 jj (yb ! 0)]\<rparr>"
  using assms
  by (simp add: vectorize_inner_graph_def readX_state_def compute_state_def
      streamOut_state_def pop_def write_vec_def read_vec_def read_elem_def)

lemma inner_step_reuse:
  assumes "ii \<noteq> 0" and "jj * w + w \<le> length xb" and "ii < length yb"
  shows "vectorize_inner_graph w a i j ii jj
           \<lparr>A_strm = av # As, x_strm = xs, y_strm = ys, res_strm = res,
            y_buf_row = yb, x_buf = xb, events = ev\<rparr> =
         Inr \<lparr>A_strm = As, x_strm = xs, y_strm = ys,
              res_strm = res @ [compute_task a av (take w (drop (jj * w) xb)) (yb ! ii)],
              y_buf_row = yb, x_buf = xb,
              events = ev @ [YBufRead i j ii jj (yb ! ii)]\<rparr>"
  using assms
  by (simp add: vectorize_inner_graph_def compute_state_def
      streamOut_state_def pop_def read_vec_def read_elem_def)

lemma inner_loop_fill:
  assumes lenX: "\<forall>jj<J. length (Xv jj) = w" and lenb: "length xb = J * w"
    and leny: "0 < length yb" and K: "K \<le> J"
  shows "for_map [0..<K] (vectorize_inner_graph w a i j 0)
           \<lparr>A_strm = map Av [0..<J] @ ra, x_strm = map Xv [0..<J] @ rx, y_strm = ys,
            res_strm = res, y_buf_row = yb, x_buf = xb, events = ev\<rparr> =
         Inr \<lparr>A_strm = map Av [K..<J] @ ra, x_strm = map Xv [K..<J] @ rx, y_strm = ys,
              res_strm = res @ map (\<lambda>jj. compute_task a (Av jj) (Xv jj) (yb ! 0)) [0..<K],
              y_buf_row = yb, x_buf = concat (map Xv [0..<K]) @ drop (K * w) xb,
              events = ev @ map (\<lambda>jj. YBufRead i j 0 jj (yb ! 0)) [0..<K]\<rparr>"
  using K
proof (induction K)
  case 0
  then show ?case by simp
next
  case (Suc K)
  then have K: "K < J" by simp
  have len: "length (concat (map Xv [0..<K])) = K * w"
    using lenX K by (simp add: length_concat_upt)
  have bound: "K * w + w \<le> J * w"
    using K by (metis Suc_leI mult_Suc mult_le_mono1 add.commute)
  show ?case
    using Suc.IH K lenX leny lenb len bound
    by (simp only: for_map_upt_Suc)
       (simp add: map_upt_Cons [OF K] inner_step_fill)
qed

lemma inner_loop_reuse:
  assumes lenX: "\<forall>jj<J. length (Xv jj) = w" and xb: "xb = concat (map Xv [0..<J])"
    and ii: "ii \<noteq> 0" "ii < length yb" and K: "K \<le> J"
  shows "for_map [0..<K] (vectorize_inner_graph w a i j ii)
           \<lparr>A_strm = map Av [0..<J] @ ra, x_strm = xs, y_strm = ys,
            res_strm = res, y_buf_row = yb, x_buf = xb, events = ev\<rparr> =
         Inr \<lparr>A_strm = map Av [K..<J] @ ra, x_strm = xs, y_strm = ys,
              res_strm = res @ map (\<lambda>jj. compute_task a (Av jj) (Xv jj) (yb ! ii)) [0..<K],
              y_buf_row = yb, x_buf = xb,
              events = ev @ map (\<lambda>jj. YBufRead i j ii jj (yb ! ii)) [0..<K]\<rparr>"
  using K
proof (induction K)
  case 0
  then show ?case by simp
next
  case (Suc K)
  then have K: "K < J" by simp
  have len: "length xb = J * w"
    using lenX xb by (simp add: length_concat_upt)
  have bound: "K * w + w \<le> J * w"
    using K by (metis Suc_leI mult_Suc mult_le_mono1 add.commute)
  have rd: "take w (drop (K * w) xb) = Xv K"
    using lenX K xb by (simp add: read_concat_uniform)
  show ?case
    using Suc.IH K ii len bound rd
    by (simp only: for_map_upt_Suc)
       (simp add: map_upt_Cons [OF K] inner_step_reuse)
qed

lemma tile_sdfg_run:
  assumes lenX: "\<forall>jj<J. length (Xv jj) = w" and lenb: "length xb = J * w"
    and ii: "ii < length yb" and J: "J = mTile div w"
    and casey: "if j = 0 then ys = yv # ys' else ys' = ys \<and> yb ! ii = yv"
    and casex: "if ii = 0 then xs = map Xv [0..<J] @ xs'
                else xs' = xs \<and> xb = concat (map Xv [0..<J])"
  shows "tile_sdfg mTile w a i j ii
           \<lparr>A_strm = map Av [0..<J] @ ra, x_strm = xs, y_strm = ys,
            res_strm = res, y_buf_row = yb, x_buf = xb, events = ev\<rparr> =
         Inr \<lparr>A_strm = ra, x_strm = xs', y_strm = ys',
              res_strm = res @ tile_res a J Av Xv yv,
              y_buf_row = (if j = 0 then yb[ii := yv] else yb),
              x_buf = concat (map Xv [0..<J]),
              events = ev @ tile_events J i j ii yv\<rparr>"
proof (cases "ii = 0")
  case True
  with casex have xs: "xs = map Xv [0..<J] @ xs'" by simp
  from ii True have pos: "0 < length yb" by simp
  have full: "concat (map Xv [0..<J]) @ drop (J * w) xb = concat (map Xv [0..<J])"
    using lenb by simp
  show ?thesis
  proof (cases "j = 0")
    case j0: True
    with casey have ys: "ys = yv # ys'" by simp
    show ?thesis
      using True j0 pos full
      by (simp add: tile_sdfg_def read_y_reduceTile_def pop_def write_elem_def ys xs
          J [symmetric] inner_loop_fill [OF lenX] lenb tile_res_def tile_events_def)
  next
    case j1: False
    with casey have ys: "ys' = ys" "yb ! ii = yv" by simp_all
    show ?thesis
      using True j1 pos full ys
      by (simp add: tile_sdfg_def read_empty_reduceTile_def xs
          J [symmetric] inner_loop_fill [OF lenX] lenb tile_res_def tile_events_def)
  qed
next
  case False
  with casex have xs: "xs' = xs" "xb = concat (map Xv [0..<J])" by simp_all
  show ?thesis
  proof (cases "j = 0")
    case j0: True
    with casey have ys: "ys = yv # ys'" by simp
    show ?thesis
      using False j0 ii xs(1) xs(2) [symmetric]
      by (simp add: tile_sdfg_def read_y_reduceTile_def pop_def write_elem_def ys
          J [symmetric] inner_loop_reuse [OF lenX xs(2)] tile_res_def tile_events_def)
  next
    case j1: False
    with casey have ys: "ys' = ys" "yb ! ii = yv" by simp_all
    show ?thesis
      using False j1 ii xs(1) ys xs(2) [symmetric]
      by (simp add: tile_sdfg_def read_empty_reduceTile_def
          J [symmetric] inner_loop_reuse [OF lenX xs(2)] tile_res_def tile_events_def)
  qed
qed

subsection \<open>The three map scopes\<close>

lemma concat_upt_Cons:
  "K < N \<Longrightarrow> concat (map f [K..<N]) = f K @ concat (map f [Suc K..<N])"
  by (simp add: upt_conv_Cons)

lemma buf_fill_step:
  assumes "length pre = K" and "K < length yb"
  shows "(pre @ drop K yb)[K := v] = (pre @ [v]) @ drop (Suc K) yb"
proof -
  have "drop K yb = yb ! K # drop (Suc K) yb"
    using assms(2) by (simp add: Cons_nth_drop_Suc)
  then show ?thesis
    using assms(1) by (simp add: list_update_append)
qed

lemma row_loop:
  assumes lenX: "\<forall>jj<J. length (Xv jj) = w" and lenb: "length xb = J * w"
    and J: "J = mTile div w" and lenyb: "length yb = nTile"
    and reuse: "j \<noteq> 0 \<longrightarrow> yb = map Yv [0..<nTile]"
    and K: "K \<le> nTile"
  shows "for_map [0..<K] (tile_sdfg mTile w a i j)
           \<lparr>A_strm = concat (map (\<lambda>ii. map (Av ii) [0..<J]) [0..<nTile]) @ ra,
            x_strm = map Xv [0..<J] @ rx,
            y_strm = (if j = 0 then map Yv [0..<nTile] @ ry else ry),
            res_strm = res, y_buf_row = yb, x_buf = xb, events = ev\<rparr> =
         Inr \<lparr>A_strm = concat (map (\<lambda>ii. map (Av ii) [0..<J]) [K..<nTile]) @ ra,
              x_strm = (if K = 0 then map Xv [0..<J] @ rx else rx),
              y_strm = (if j = 0 then map Yv [K..<nTile] @ ry else ry),
              res_strm = res @ concat (map (\<lambda>ii. tile_res a J (Av ii) Xv (Yv ii)) [0..<K]),
              y_buf_row = (if j = 0 then map Yv [0..<K] @ drop K yb else yb),
              x_buf = (if K = 0 then xb else concat (map Xv [0..<J])),
              events = ev @ concat (map (\<lambda>ii. tile_events J i j ii (Yv ii)) [0..<K])\<rparr>"
  using K
proof (induction K)
  case 0
  then show ?case by simp
next
  case (Suc K)
  then have K: "K < nTile" by simp
  let ?yb = "if j = 0 then map Yv [0..<K] @ drop K yb else yb"
  let ?xb = "if K = 0 then xb else concat (map Xv [0..<J])"
  let ?xs = "if K = 0 then map Xv [0..<J] @ rx else rx"
  let ?ys = "if j = 0 then map Yv [K..<nTile] @ ry else ry"
  let ?ys' = "if j = 0 then map Yv [Suc K..<nTile] @ ry else ry"
  have lenxb: "length ?xb = J * w"
    using lenb lenX by (simp add: length_concat_upt)
  have ii: "K < length ?yb"
    using K lenyb by simp
  have casey: "if j = 0 then ?ys = Yv K # ?ys' else ?ys' = ?ys \<and> ?yb ! K = Yv K"
    using K reuse by (simp add: map_upt_Cons [OF K])
  have casex: "if K = 0 then ?xs = map Xv [0..<J] @ rx
               else rx = ?xs \<and> ?xb = concat (map Xv [0..<J])"
    by simp
  have step: "tile_sdfg mTile w a i j K
           \<lparr>A_strm = map (Av K) [0..<J] @ (concat (map (\<lambda>ii. map (Av ii) [0..<J]) [Suc K..<nTile]) @ ra),
            x_strm = ?xs, y_strm = ?ys,
            res_strm = res @ concat (map (\<lambda>ii. tile_res a J (Av ii) Xv (Yv ii)) [0..<K]),
            y_buf_row = ?yb, x_buf = ?xb,
            events = ev @ concat (map (\<lambda>ii. tile_events J i j ii (Yv ii)) [0..<K])\<rparr> =
         Inr \<lparr>A_strm = concat (map (\<lambda>ii. map (Av ii) [0..<J]) [Suc K..<nTile]) @ ra,
              x_strm = rx, y_strm = ?ys',
              res_strm = (res @ concat (map (\<lambda>ii. tile_res a J (Av ii) Xv (Yv ii)) [0..<K]))
                           @ tile_res a J (Av K) Xv (Yv K),
              y_buf_row = (if j = 0 then ?yb[K := Yv K] else ?yb),
              x_buf = concat (map Xv [0..<J]),
              events = (ev @ concat (map (\<lambda>ii. tile_events J i j ii (Yv ii)) [0..<K]))
                           @ tile_events J i j K (Yv K)\<rparr>"
    by (rule tile_sdfg_run [OF lenX lenxb ii J casey casex])
  have upd: "j = 0 \<Longrightarrow> ?yb[K := Yv K] = map Yv [0..<Suc K] @ drop (Suc K) yb"
    using K lenyb by (simp add: buf_fill_step)
  have A: "concat (map (\<lambda>ii. map (Av ii) [0..<J]) [K..<nTile]) @ ra =
           map (Av K) [0..<J] @ (concat (map (\<lambda>ii. map (Av ii) [0..<J]) [Suc K..<nTile]) @ ra)"
    using K by (simp add: concat_upt_Cons)
  have IH: "for_map [0..<K] (tile_sdfg mTile w a i j)
           \<lparr>A_strm = concat (map (\<lambda>ii. map (Av ii) [0..<J]) [0..<nTile]) @ ra,
            x_strm = map Xv [0..<J] @ rx,
            y_strm = (if j = 0 then map Yv [0..<nTile] @ ry else ry),
            res_strm = res, y_buf_row = yb, x_buf = xb, events = ev\<rparr> =
         Inr \<lparr>A_strm = map (Av K) [0..<J] @ (concat (map (\<lambda>ii. map (Av ii) [0..<J]) [Suc K..<nTile]) @ ra),
            x_strm = ?xs, y_strm = ?ys,
            res_strm = res @ concat (map (\<lambda>ii. tile_res a J (Av ii) Xv (Yv ii)) [0..<K]),
            y_buf_row = ?yb, x_buf = ?xb,
            events = ev @ concat (map (\<lambda>ii. tile_events J i j ii (Yv ii)) [0..<K])\<rparr>"
    using Suc.IH K unfolding A by simp
  show ?case
    unfolding for_map_upt_Suc IH bind_err_Inr step
    using upd by simp
qed

lemma col_loop:
  assumes lenX: "\<forall>j<CM. \<forall>jj<J. length (Xv j jj) = w" and lenb: "length xb = J * w"
    and J: "J = mTile div w" and lenyb: "length yb = nTile" and pos: "0 < nTile"
    and K: "K \<le> CM"
  shows "\<exists>yb' xb'. length yb' = nTile \<and> length xb' = J * w \<and>
           (K \<noteq> 0 \<longrightarrow> yb' = map Yv [0..<nTile]) \<and>
         for_map [0..<K] (\<lambda>j. for_map [0..<nTile] (tile_sdfg mTile w a i j))
           \<lparr>A_strm = concat (map (\<lambda>j. concat (map (\<lambda>ii. map (Av j ii) [0..<J]) [0..<nTile]))
                        [0..<CM]) @ ra,
            x_strm = concat (map (\<lambda>j. map (Xv j) [0..<J]) [0..<CM]) @ rx,
            y_strm = map Yv [0..<nTile] @ ry,
            res_strm = res, y_buf_row = yb, x_buf = xb, events = ev\<rparr> =
         Inr \<lparr>A_strm = concat (map (\<lambda>j. concat (map (\<lambda>ii. map (Av j ii) [0..<J]) [0..<nTile]))
                        [K..<CM]) @ ra,
              x_strm = concat (map (\<lambda>j. map (Xv j) [0..<J]) [K..<CM]) @ rx,
              y_strm = (if K = 0 then map Yv [0..<nTile] @ ry else ry),
              res_strm = res @ concat (map (\<lambda>j. concat (map (\<lambda>ii.
                           tile_res a J (Av j ii) (Xv j) (Yv ii)) [0..<nTile])) [0..<K]),
              y_buf_row = yb', x_buf = xb',
              events = ev @ concat (map (\<lambda>j. concat (map (\<lambda>ii.
                           tile_events J i j ii (Yv ii)) [0..<nTile])) [0..<K])\<rparr>"
  using K
proof (induction K)
  case 0
  then show ?case using lenb lenyb by simp
next
  case (Suc K)
  then have K: "K < CM" by simp
  with Suc.IH obtain yb' xb' where lenyb': "length yb' = nTile" and lenxb': "length xb' = J * w"
    and reuse: "K \<noteq> 0 \<longrightarrow> yb' = map Yv [0..<nTile]"
    and IH: "for_map [0..<K] (\<lambda>j. for_map [0..<nTile] (tile_sdfg mTile w a i j))
           \<lparr>A_strm = concat (map (\<lambda>j. concat (map (\<lambda>ii. map (Av j ii) [0..<J]) [0..<nTile]))
                        [0..<CM]) @ ra,
            x_strm = concat (map (\<lambda>j. map (Xv j) [0..<J]) [0..<CM]) @ rx,
            y_strm = map Yv [0..<nTile] @ ry,
            res_strm = res, y_buf_row = yb, x_buf = xb, events = ev\<rparr> =
         Inr \<lparr>A_strm = concat (map (\<lambda>j. concat (map (\<lambda>ii. map (Av j ii) [0..<J]) [0..<nTile]))
                        [K..<CM]) @ ra,
              x_strm = concat (map (\<lambda>j. map (Xv j) [0..<J]) [K..<CM]) @ rx,
              y_strm = (if K = 0 then map Yv [0..<nTile] @ ry else ry),
              res_strm = res @ concat (map (\<lambda>j. concat (map (\<lambda>ii.
                           tile_res a J (Av j ii) (Xv j) (Yv ii)) [0..<nTile])) [0..<K]),
              y_buf_row = yb', x_buf = xb',
              events = ev @ concat (map (\<lambda>j. concat (map (\<lambda>ii.
                           tile_events J i j ii (Yv ii)) [0..<nTile])) [0..<K])\<rparr>"
    by auto
  have lenXK: "\<forall>jj<J. length (Xv K jj) = w"
    using lenX K by simp
  note row = row_loop [OF lenXK lenxb' J lenyb' reuse order_refl,
      where Av = "Av K" and a = a and i = i and ev = "ev @ concat (map (\<lambda>j. concat (map (\<lambda>ii.
                           tile_events J i j ii (Yv ii)) [0..<nTile])) [0..<K])"
        and res = "res @ concat (map (\<lambda>j. concat (map (\<lambda>ii.
                           tile_res a J (Av j ii) (Xv j) (Yv ii)) [0..<nTile])) [0..<K])"
        and ry = ry
        and rx = "concat (map (\<lambda>j. map (Xv j) [0..<J]) [Suc K..<CM]) @ rx"
        and ra = "concat (map (\<lambda>j. concat (map (\<lambda>ii. map (Av j ii) [0..<J]) [0..<nTile]))
                        [Suc K..<CM]) @ ra"]
  have lenX': "length (concat (map (Xv K) [0..<J])) = J * w"
    using lenXK by (simp add: length_concat_upt)
  have ybK: "(if K = 0 then map Yv [0..<nTile] @ drop nTile yb' else yb') = map Yv [0..<nTile]"
    using reuse lenyb' by simp
  show ?case
    apply (rule exI [of _ "map Yv [0..<nTile]"])
    apply (rule exI [of _ "concat (map (Xv K) [0..<J])"])
    unfolding for_map_upt_Suc IH bind_err_Inr
    using row pos lenX' ybK K
    by (simp add: concat_upt_Cons [OF K])
qed

lemma block_loop:
  assumes lenX: "\<forall>j<CM. \<forall>jj<J. length (Xv j jj) = w" and lenb: "length xb = J * w"
    and J: "J = mTile div w" and lenyb: "length yb = nTile" and pos: "0 < nTile" "0 < CM"
    and K: "K \<le> RB"
  shows "\<exists>yb' xb'. length yb' = nTile \<and> length xb' = J * w \<and>
         for_map [0..<K] (\<lambda>i. for_map [0..<CM] (\<lambda>j. for_map [0..<nTile] (tile_sdfg mTile w a i j)))
           \<lparr>A_strm = concat (map (\<lambda>i. concat (map (\<lambda>j. concat (map (\<lambda>ii.
                        map (Av i j ii) [0..<J]) [0..<nTile])) [0..<CM])) [0..<RB]) @ ra,
            x_strm = concat (map (\<lambda>i. concat (map (\<lambda>j. map (Xv j) [0..<J]) [0..<CM])) [0..<RB]) @ rx,
            y_strm = concat (map (\<lambda>i. map (Yv i) [0..<nTile]) [0..<RB]) @ ry,
            res_strm = res, y_buf_row = yb, x_buf = xb, events = ev\<rparr> =
         Inr \<lparr>A_strm = concat (map (\<lambda>i. concat (map (\<lambda>j. concat (map (\<lambda>ii.
                        map (Av i j ii) [0..<J]) [0..<nTile])) [0..<CM])) [K..<RB]) @ ra,
              x_strm = concat (map (\<lambda>i. concat (map (\<lambda>j. map (Xv j) [0..<J]) [0..<CM])) [K..<RB]) @ rx,
              y_strm = concat (map (\<lambda>i. map (Yv i) [0..<nTile]) [K..<RB]) @ ry,
              res_strm = res @ concat (map (\<lambda>i. concat (map (\<lambda>j. concat (map (\<lambda>ii.
                           tile_res a J (Av i j ii) (Xv j) (Yv i ii)) [0..<nTile])) [0..<CM])) [0..<K]),
              y_buf_row = yb', x_buf = xb',
              events = ev @ concat (map (\<lambda>i. concat (map (\<lambda>j. concat (map (\<lambda>ii.
                           tile_events J i j ii (Yv i ii)) [0..<nTile])) [0..<CM])) [0..<K])\<rparr>"
  using K
proof (induction K)
  case 0
  then show ?case using lenb lenyb by simp
next
  case (Suc K)
  then have K: "K < RB" by simp
  with Suc.IH obtain yb' xb' where lenyb': "length yb' = nTile" and lenxb': "length xb' = J * w"
    and IH: "for_map [0..<K] (\<lambda>i. for_map [0..<CM] (\<lambda>j. for_map [0..<nTile] (tile_sdfg mTile w a i j)))
           \<lparr>A_strm = concat (map (\<lambda>i. concat (map (\<lambda>j. concat (map (\<lambda>ii.
                        map (Av i j ii) [0..<J]) [0..<nTile])) [0..<CM])) [0..<RB]) @ ra,
            x_strm = concat (map (\<lambda>i. concat (map (\<lambda>j. map (Xv j) [0..<J]) [0..<CM])) [0..<RB]) @ rx,
            y_strm = concat (map (\<lambda>i. map (Yv i) [0..<nTile]) [0..<RB]) @ ry,
            res_strm = res, y_buf_row = yb, x_buf = xb, events = ev\<rparr> =
         Inr \<lparr>A_strm = concat (map (\<lambda>i. concat (map (\<lambda>j. concat (map (\<lambda>ii.
                        map (Av i j ii) [0..<J]) [0..<nTile])) [0..<CM])) [K..<RB]) @ ra,
              x_strm = concat (map (\<lambda>i. concat (map (\<lambda>j. map (Xv j) [0..<J]) [0..<CM])) [K..<RB]) @ rx,
              y_strm = concat (map (\<lambda>i. map (Yv i) [0..<nTile]) [K..<RB]) @ ry,
              res_strm = res @ concat (map (\<lambda>i. concat (map (\<lambda>j. concat (map (\<lambda>ii.
                           tile_res a J (Av i j ii) (Xv j) (Yv i ii)) [0..<nTile])) [0..<CM])) [0..<K]),
              y_buf_row = yb', x_buf = xb',
              events = ev @ concat (map (\<lambda>i. concat (map (\<lambda>j. concat (map (\<lambda>ii.
                           tile_events J i j ii (Yv i ii)) [0..<nTile])) [0..<CM])) [0..<K])\<rparr>"
    by auto
  from col_loop [OF lenX lenxb' J lenyb' pos(1) order_refl,
      where Av = "Av K" and Yv = "Yv K" and a = a and i = K
        and ev = "ev @ concat (map (\<lambda>i. concat (map (\<lambda>j. concat (map (\<lambda>ii.
                           tile_events J i j ii (Yv i ii)) [0..<nTile])) [0..<CM])) [0..<K])"
        and res = "res @ concat (map (\<lambda>i. concat (map (\<lambda>j. concat (map (\<lambda>ii.
                           tile_res a J (Av i j ii) (Xv j) (Yv i ii)) [0..<nTile])) [0..<CM])) [0..<K])"
        and ry = "concat (map (\<lambda>i. map (Yv i) [0..<nTile]) [Suc K..<RB]) @ ry"
        and rx = "concat (map (\<lambda>i. concat (map (\<lambda>j. map (Xv j) [0..<J]) [0..<CM])) [Suc K..<RB]) @ rx"
        and ra = "concat (map (\<lambda>i. concat (map (\<lambda>j. concat (map (\<lambda>ii.
                        map (Av i j ii) [0..<J]) [0..<nTile])) [0..<CM])) [Suc K..<RB]) @ ra"]
  obtain yb'' xb'' where len'': "length yb'' = nTile" "length xb'' = J * w"
    and col: "for_map [0..<CM] (\<lambda>j. for_map [0..<nTile] (tile_sdfg mTile w a K j))
           \<lparr>A_strm = concat (map (\<lambda>j. concat (map (\<lambda>ii. map (Av K j ii) [0..<J]) [0..<nTile]))
                        [0..<CM]) @ (concat (map (\<lambda>i. concat (map (\<lambda>j. concat (map (\<lambda>ii.
                        map (Av i j ii) [0..<J]) [0..<nTile])) [0..<CM])) [Suc K..<RB]) @ ra),
            x_strm = concat (map (\<lambda>j. map (Xv j) [0..<J]) [0..<CM]) @
               (concat (map (\<lambda>i. concat (map (\<lambda>j. map (Xv j) [0..<J]) [0..<CM])) [Suc K..<RB]) @ rx),
            y_strm = map (Yv K) [0..<nTile] @ (concat (map (\<lambda>i. map (Yv i) [0..<nTile]) [Suc K..<RB]) @ ry),
            res_strm = res @ concat (map (\<lambda>i. concat (map (\<lambda>j. concat (map (\<lambda>ii.
                           tile_res a J (Av i j ii) (Xv j) (Yv i ii)) [0..<nTile])) [0..<CM])) [0..<K]),
            y_buf_row = yb', x_buf = xb',
            events = ev @ concat (map (\<lambda>i. concat (map (\<lambda>j. concat (map (\<lambda>ii.
                           tile_events J i j ii (Yv i ii)) [0..<nTile])) [0..<CM])) [0..<K])\<rparr> =
         Inr \<lparr>A_strm = concat (map (\<lambda>i. concat (map (\<lambda>j. concat (map (\<lambda>ii.
                        map (Av i j ii) [0..<J]) [0..<nTile])) [0..<CM])) [Suc K..<RB]) @ ra,
              x_strm = concat (map (\<lambda>i. concat (map (\<lambda>j. map (Xv j) [0..<J]) [0..<CM])) [Suc K..<RB]) @ rx,
              y_strm = concat (map (\<lambda>i. map (Yv i) [0..<nTile]) [Suc K..<RB]) @ ry,
              res_strm = (res @ concat (map (\<lambda>i. concat (map (\<lambda>j. concat (map (\<lambda>ii.
                           tile_res a J (Av i j ii) (Xv j) (Yv i ii)) [0..<nTile])) [0..<CM])) [0..<K]))
                         @ concat (map (\<lambda>j. concat (map (\<lambda>ii.
                           tile_res a J (Av K j ii) (Xv j) (Yv K ii)) [0..<nTile])) [0..<CM]),
              y_buf_row = yb'', x_buf = xb'',
              events = (ev @ concat (map (\<lambda>i. concat (map (\<lambda>j. concat (map (\<lambda>ii.
                           tile_events J i j ii (Yv i ii)) [0..<nTile])) [0..<CM])) [0..<K]))
                         @ concat (map (\<lambda>j. concat (map (\<lambda>ii.
                           tile_events J K j ii (Yv K ii)) [0..<nTile])) [0..<CM])\<rparr>"
    using pos(2) by auto
  show ?case
    apply (rule exI [of _ yb''])
    apply (rule exI [of _ xb''])
    unfolding for_map_upt_Suc IH bind_err_Inr
    using col len'' K
    by (simp add: concat_upt_Cons [OF K])
qed

subsection \<open>The complete run\<close>

lemma upt_block: "[0..<K * J + J] = [0..<K * J] @ map (\<lambda>jj. K * J + jj) [0..<J]"
proof -
  have "[0..<K * J + J] = [0..<K * J] @ [K * J..<K * J + J]"
    by (rule upt_add_eq_append) simp
  moreover have "[K * J..<K * J + J] = map (\<lambda>jj. K * J + jj) [0..<J]"
    by (rule nth_equalityI) simp_all
  ultimately show ?thesis by (simp only:)
qed

lemma map_upt_regroup:
  "map f [0..<K * J] = concat (map (\<lambda>j. map (\<lambda>jj. f (j * J + jj)) [0..<J]) [0..<K])"
proof (induction K)
  case 0
  show ?case by simp
next
  case (Suc K)
  have "map f [0..<Suc K * J] = map f [0..<K * J + J]"
    by (simp only: mult_Suc add.commute)
  also have "\<dots> = map f [0..<K * J] @ map (\<lambda>jj. f (K * J + jj)) [0..<J]"
    by (simp only: upt_block map_append map_map comp_def)
  finally show ?case
    by (simp only: Suc.IH upt_Suc_append [OF le0] map_append concat_append list.map concat.simps append_Nil2)
qed

lemma StreamReadVector_x:
  assumes "w dvd mTile" and "mTile dvd m" and "0 < w" and "0 < mTile"
  shows "StreamReadVector x m w RB =
         concat (map (\<lambda>i. concat (map (\<lambda>j. map (\<lambda>jj. x_packet x w (j * (mTile div w) + jj))
           [0..<mTile div w]) [0..<m div mTile])) [0..<RB])"
proof -
  from assms obtain J where J: "mTile = w * J" by (auto simp add: dvd_def)
  from assms obtain C where C: "m = mTile * C" by (auto simp add: dvd_def)
  have "m div w = (m div mTile) * (mTile div w)"
    using assms(3,4) by (simp add: J C)
  then have "map (x_packet x w) [0..<m div w] =
      concat (map (\<lambda>j. map (\<lambda>jj. x_packet x w (j * (mTile div w) + jj))
           [0..<mTile div w]) [0..<m div mTile])"
    by (simp only: map_upt_regroup)
  moreover have "replicate RB X = map (\<lambda>i. X) [0..<RB]" for X :: "'a list list"
    by (simp add: map_replicate_trivial)
  ultimately show ?thesis
    unfolding StreamReadVector_def x_packet_def [abs_def] by simp
qed

lemma StreamReadVector_y:
  assumes "nTile dvd n" and "length y = n"
  shows "concat (StreamReadVector y n (Suc 0) (Suc 0)) =
         concat (map (\<lambda>i. map (\<lambda>ii. y ! (i * nTile + ii)) [0..<nTile]) [0..<n div nTile])"
proof -
  have n: "(n div nTile) * nTile = n"
    using assms(1) by simp
  have "concat (StreamReadVector y n (Suc 0) (Suc 0)) = map (\<lambda>k. y ! k) [0..<n]"
    by (simp add: StreamReadVector_def)
  also have "\<dots> = map (\<lambda>k. y ! k) [0..<(n div nTile) * nTile]"
    by (simp only: n)
  also have "\<dots> = concat (map (\<lambda>i. map (\<lambda>ii. y ! (i * nTile + ii)) [0..<nTile]) [0..<n div nTile])"
    by (rule map_upt_regroup)
  finally show ?thesis .
qed

lemma run_fpga_final:
  assumes valid: "valid_config nTile mTile n m w"
    and shapes: "length x = m" "length y = n" "has_shape (Arr2 A) [n, m]"
  shows "\<exists>yb xb. run_fpga nTile mTile n m w a junk x y A =
           Inr \<lparr>A_strm = [], x_strm = [], y_strm = [],
                res_strm = engine_res nTile mTile n m w a x y A,
                y_buf_row = yb, x_buf = xb,
                events = engine_events nTile mTile n m w y\<rparr>"
proof -
  from valid have pos: "0 < n" "0 < m" "0 < nTile" "0 < mTile" "0 < w"
    and dvd: "nTile dvd n" "mTile dvd m" "w dvd mTile"
    by (simp_all add: valid_config_def)
  from dvd obtain C where C: "m = mTile * C" by (auto simp add: dvd_def)
  have CM: "0 < m div mTile"
    using pos by (simp add: C)
  have lenX: "\<forall>j<m div mTile. \<forall>jj<mTile div w.
      length (x_packet x w (j * (mTile div w) + jj)) = w"
    by (simp add: x_packet_def)
  have lenb: "length (map (\<lambda>k. junk (nTile + k)) [0..<mTile]) = mTile div w * w"
    using dvd by simp
  have lenyb: "length (map junk [0..<nTile]) = nTile"
    by simp
  have init: "engine_init nTile mTile n m w junk x y A =
      \<lparr>A_strm = concat (map (\<lambda>i. concat (map (\<lambda>j. concat (map (\<lambda>ii.
                        map (A_packet A nTile mTile w i j ii) [0..<mTile div w]) [0..<nTile]))
                        [0..<m div mTile])) [0..<n div nTile]) @ [],
            x_strm = concat (map (\<lambda>i. concat (map (\<lambda>j.
                        map (\<lambda>jj. x_packet x w (j * (mTile div w) + jj)) [0..<mTile div w])
                        [0..<m div mTile])) [0..<n div nTile]) @ [],
            y_strm = concat (map (\<lambda>i. map (\<lambda>ii. y ! (i * nTile + ii)) [0..<nTile])
                        [0..<n div nTile]) @ [],
            res_strm = [], y_buf_row = map junk [0..<nTile],
            x_buf = map (\<lambda>k. junk (nTile + k)) [0..<mTile], events = []\<rparr>"
    by (simp add: engine_init_def
        StreamReadVector_x [OF dvd(3) dvd(2) pos(5) pos(4)]
        StreamReadVector_y [OF dvd(1) shapes(2)]
        StreamReadMatrixFull_def A_packet_def [abs_def])
  from block_loop [OF lenX lenb refl lenyb pos(3) CM le_refl [of "n div nTile"],
      where Av = "A_packet A nTile mTile w" and Yv = "\<lambda>i ii. y ! (i * nTile + ii)"
        and a = a and ra = "[]" and rx = "[]" and ry = "[]" and res = "[]" and ev = "[]"]
  have "\<exists>yb xb. ger_fpga_stream_rowTiles nTile mTile n m w a
           (engine_init nTile mTile n m w junk x y A) =
           Inr \<lparr>A_strm = [], x_strm = [], y_strm = [],
                res_strm = engine_res nTile mTile n m w a x y A,
                y_buf_row = yb, x_buf = xb,
                events = engine_events nTile mTile n m w y\<rparr>"
    unfolding ger_fpga_stream_rowTiles_def init engine_res_def engine_events_def
    by auto
  then show ?thesis
    using shapes by (simp add: run_fpga_def)
qed

subsection \<open>The matrix put together from the output stream\<close>

lemma nth_concat_upt:
  assumes "\<forall>k<K. length (f k) = L" and "k < K" and "p < L"
  shows "concat (map f [0..<K]) ! (k * L + p) = f k ! p"
proof -
  have split: "[0..<K] = [0..<k] @ k # [Suc k..<K]"
    using assms(2) by (metis le_add1 le_add_same_cancel1 less_imp_add_positive upt_add_eq_append upt_conv_Cons)
  have len: "length (concat (map f [0..<k])) = k * L"
    using assms(1,2) by (simp add: length_concat_upt)
  have "concat (map f [0..<K]) = concat (map f [0..<k]) @ f k @ concat (map f [Suc k..<K])"
    by (subst split) simp
  then show ?thesis
    using len assms by (simp add: nth_append)
qed

lemma less_block: "a < A \<Longrightarrow> b < B \<Longrightarrow> a * B + b < A * (B::nat)"
proof -
  assume a: "a < A" and b: "b < B"
  have "a * B + b < a * B + B" using b by simp
  also have "\<dots> = Suc a * B" by simp
  also have "\<dots> \<le> A * B" using a by (intro mult_le_mono1) simp
  finally show ?thesis .
qed

lemma length_concat_const:
  "(\<And>k. length (f k) = L) \<Longrightarrow> length (concat (map f [0..<K])) = K * L"
  by (induction K) simp_all

lemma length_tile_res [simp]: "length (tile_res a J Av Xv yv) = J"
  by (simp add: tile_res_def)

lemma engine_res_nth:
  assumes i: "i < n div nTile" and j: "j < m div mTile" and ii: "ii < nTile"
    and jj: "jj < mTile div w"
  shows "engine_res nTile mTile n m w a x y A
           ! (((i * (m div mTile) + j) * nTile + ii) * (mTile div w) + jj) =
         compute_task a (A_packet A nTile mTile w i j ii jj)
           (x_packet x w (j * (mTile div w) + jj)) (y ! (i * nTile + ii))"
proof -
  let ?J = "mTile div w" and ?CM = "m div mTile"
  let ?T = "\<lambda>i j ii. tile_res a ?J (A_packet A nTile mTile w i j ii)
         (\<lambda>jj. x_packet x w (j * ?J + jj)) (y ! (i * nTile + ii))"
  let ?R = "\<lambda>i j. concat (map (?T i j) [0..<nTile])"
  let ?B = "\<lambda>i. concat (map (?R i) [0..<?CM])"
  have lenR: "\<forall>i j. length (?R i j) = nTile * ?J"
    by (intro allI length_concat_const) simp
  have lenB: "\<forall>i. length (?B i) = ?CM * (nTile * ?J)"
    using lenR by (intro allI length_concat_const) simp
  have idx: "((i * ?CM + j) * nTile + ii) * ?J + jj =
             i * (?CM * (nTile * ?J)) + (j * (nTile * ?J) + (ii * ?J + jj))"
    by (simp add: algebra_simps)
  have b1: "ii * ?J + jj < nTile * ?J"
    using ii jj by (rule less_block)
  have b2: "j * (nTile * ?J) + (ii * ?J + jj) < ?CM * (nTile * ?J)"
    using j b1 by (rule less_block)
  have "engine_res nTile mTile n m w a x y A
           ! (((i * ?CM + j) * nTile + ii) * ?J + jj) =
        concat (map ?B [0..<n div nTile]) ! (i * (?CM * (nTile * ?J)) + (j * (nTile * ?J) + (ii * ?J + jj)))"
    by (simp only: engine_res_def idx)
  also have "\<dots> = ?B i ! (j * (nTile * ?J) + (ii * ?J + jj))"
    using lenB i b2 by (intro nth_concat_upt) simp_all
  also have "\<dots> = ?R i j ! (ii * ?J + jj)"
    using lenR j b1 by (intro nth_concat_upt) simp_all
  also have "\<dots> = ?T i j ii ! jj"
    using ii jj by (intro nth_concat_upt) simp_all
  also have "\<dots> = compute_task a (A_packet A nTile mTile w i j ii jj)
           (x_packet x w (j * ?J + jj)) (y ! (i * nTile + ii))"
    using jj by (simp add: tile_res_def)
  finally show ?thesis .
qed

lemma length_engine_res:
  "length (engine_res nTile mTile n m w a x y A) =
     n div nTile * (m div mTile * (nTile * (mTile div w)))"
  unfolding engine_res_def
  by (intro length_concat_const) simp

lemma compute_task_nth:
  assumes "l < w"
  shows "compute_task a (A_packet A nTile mTile w i j ii jj) (x_packet x w k) yv ! l =
         A ! (i * nTile + ii) ! (j * mTile + jj * w + l) + x ! (k * w + l) * yv * a"
  using assms by (simp add: compute_task_def A_packet_def x_packet_def)

lemma engine_res_entry:
  assumes valid: "valid_config nTile mTile n m w" and r: "r < n" and c: "c < m"
  shows "engine_res nTile mTile n m w a x y A
           ! (((r div nTile * (m div mTile) + c div mTile) * nTile + r mod nTile)
                 * (mTile div w) + c mod mTile div w)
           ! (c mod mTile mod w) =
         A ! r ! c + x ! c * y ! r * a"
proof -
  from valid have pos: "0 < nTile" "0 < mTile" "0 < w"
    and dvd: "nTile dvd n" "mTile dvd m" "w dvd mTile"
    by (simp_all add: valid_config_def)
  from dvd obtain RB where RB: "n = nTile * RB" by (auto simp add: dvd_def)
  from dvd obtain CM where CM: "m = mTile * CM" by (auto simp add: dvd_def)
  from dvd obtain J where J: "mTile = w * J" by (auto simp add: dvd_def)
  have i: "r div nTile < n div nTile"
    using r pos by (simp add: RB less_mult_imp_div_less mult.commute)
  have j: "c div mTile < m div mTile"
    using c pos by (simp add: CM less_mult_imp_div_less mult.commute)
  have ii: "r mod nTile < nTile"
    using pos by simp
  have cm: "c mod mTile < w * J"
    using pos J by (metis mod_less_divisor)
  have jj: "c mod mTile div w < mTile div w"
    using cm pos by (simp add: J less_mult_imp_div_less mult.commute)
  have l: "c mod mTile mod w < w"
    using pos by simp
  have row: "r div nTile * nTile + r mod nTile = r"
    by simp
  have col1: "c div mTile * mTile + c mod mTile div w * w + c mod mTile mod w = c"
    by (simp add: add.assoc)
  have Jw: "mTile div w * w = mTile"
    using dvd by simp
  have col2: "(c div mTile * (mTile div w) + c mod mTile div w) * w + c mod mTile mod w = c"
    using col1 by (simp add: add_mult_distrib mult.assoc Jw)
  show ?thesis
    by (simp only: engine_res_nth [OF i j ii jj] compute_task_nth [OF l] row col1 col2)
qed

lemma ger_fpga_result:
  assumes valid: "valid_config nTile mTile n m w"
    and shapes: "length x = m" "length y = n" "has_shape (Arr2 A) [n, m]"
  shows "ger_fpga nTile mTile n m w a junk x y A =
         Inr (map (\<lambda>r. map (\<lambda>c. A ! r ! c + x ! c * y ! r * a) [0..<m]) [0..<n])"
proof -
  from run_fpga_final [OF valid shapes, of a junk]
  obtain yb xb where run: "run_fpga nTile mTile n m w a junk x y A =
           Inr \<lparr>A_strm = [], x_strm = [], y_strm = [],
                res_strm = engine_res nTile mTile n m w a x y A,
                y_buf_row = yb, x_buf = xb,
                events = engine_events nTile mTile n m w y\<rparr>"
    by blast
  show ?thesis
    using engine_res_entry [OF valid]
    by (auto simp add: ger_fpga_def run StreamWriteMatrixFull_def)
qed

subsection \<open>The two expansions compared\<close>


lemma matrix_map_nth:
  assumes "has_shape (Arr2 A) [n, m]"
  shows "map (\<lambda>r. map (\<lambda>c. A ! r ! c) [0..<m]) [0..<n] = A"
proof (rule nth_equalityI)
  show "length (map (\<lambda>r. map (\<lambda>c. A ! r ! c) [0..<m]) [0..<n]) = length A"
    using assms by simp
next
  fix r assume "r < length (map (\<lambda>r. map (\<lambda>c. A ! r ! c) [0..<m]) [0..<n])"
  then have r: "r < length A" using assms by simp
  then have "length (A ! r) = m"
    using assms by (simp add: list_all_length)
  then have "map (\<lambda>c. A ! r ! c) [0..<m] = A ! r"
    by (metis map_nth)
  then show "map (\<lambda>r. map (\<lambda>c. A ! r ! c) [0..<m]) [0..<n] ! r = A ! r"
    using r assms by simp
qed






text \<open>
  On the operands of that scenario the pure expansion, which indexes \<open>x\<close> by the row, gives
  the transposed matrix: every column is \<open>x\<close>.
\<close>

lemma concrete_scenario_pure:
  "ger_pure (1::int) [1, 2, 3, 4] [1, 1, 1, 1]
     [[0, 0, 0, 0], [0, 0, 0, 0], [0, 0, 0, 0], [0, 0, 0, 0]] =
   Inr [[1, 1, 1, 1], [2, 2, 2, 2], [3, 3, 3, 3], [4, 4, 4, 4]]"
  by code_simp

subsection \<open>The scalar 0 and the sum of two scalars\<close>

lemma stream_sizes:
  assumes valid: "valid_config nTile mTile n m w"
  shows "n div nTile * (m div mTile * (nTile * (mTile div w))) * w = n * m"
proof -
  from valid have dvd: "nTile dvd n" "mTile dvd m" "w dvd mTile"
    by (simp_all add: valid_config_def)
  have "n div nTile * (m div mTile * (nTile * (mTile div w))) * w =
        (n div nTile * nTile) * (m div mTile * (mTile div w * w))"
    by (simp add: mult_ac)
  also have "\<dots> = n * m"
    using dvd by simp
  finally show ?thesis .
qed

text \<open>
  C8: with the scalar 0, for every valid configuration and operands of matching sizes,
  the run of the tiled expansion ends without a fault, leaves the three input streams
  empty, has emitted \<open>n * m\<close> elements in packets of \<open>w\<close> lanes, and the matrix put
  together from the output stream is \<open>A\<close>.
\<close>

theorem alpha_zero_returns_A:
  assumes valid: "valid_config nTile mTile n m w"
    and shapes: "length x = m" "length y = n" "has_shape (Arr2 A) [n, m]"
  shows "\<exists>s. run_fpga nTile mTile n m w 0 junk x y A = Inr s \<and>
           A_strm s = [] \<and> x_strm s = [] \<and> y_strm s = [] \<and>
           length (res_strm s) * w = n * m \<and>
           ger_fpga nTile mTile n m w 0 junk x y A = Inr A"
proof -
  from run_fpga_final [OF valid shapes, of 0 junk]
  obtain yb xb where run: "run_fpga nTile mTile n m w 0 junk x y A =
           Inr \<lparr>A_strm = [], x_strm = [], y_strm = [],
                res_strm = engine_res nTile mTile n m w 0 x y A,
                y_buf_row = yb, x_buf = xb,
                events = engine_events nTile mTile n m w y\<rparr>"
    by blast
  have "ger_fpga nTile mTile n m w 0 junk x y A = Inr A"
    by (simp add: ger_fpga_result [OF valid shapes] matrix_map_nth [OF shapes(3)])
  then show ?thesis
    by (simp add: run length_engine_res stream_sizes [OF valid])
qed

theorem alpha_zero_returns_A_witness:
  "\<exists>s. run_fpga 2 2 4 4 1 (0::int) zero_junk [1, 2, 3, 4] [5, 6, 7, 8]
          [[0, 1, 2, 3], [1, 2, 3, 4], [2, 3, 4, 5], [3, 4, 5, 6]] = Inr s \<and>
        A_strm s = [] \<and> x_strm s = [] \<and> y_strm s = [] \<and>
        length (res_strm s) * 1 = 4 * 4 \<and>
        ger_fpga 2 2 4 4 1 (0::int) zero_junk [1, 2, 3, 4] [5, 6, 7, 8]
          [[0, 1, 2, 3], [1, 2, 3, 4], [2, 3, 4, 5], [3, 4, 5, 6]] =
        Inr [[0, 1, 2, 3], [1, 2, 3, 4], [2, 3, 4, 5], [3, 4, 5, 6]]"
  by (rule alpha_zero_returns_A) (simp_all add: valid_config_def)



section \<open>The protocol of the buffer of y\<close>

subsection \<open>Counting lemmas\<close>

lemma count_concat_map:
  "count_events P (concat (map f ks)) = sum_list (map (\<lambda>k. count_events P (f k)) ks)"
  by (induction ks) (simp_all add: count_events_def)

lemma sum_list_const_nat: "sum_list (map (\<lambda>k. c) ks) = length ks * (c::nat)"
  by (induction ks) simp_all

lemma sum_list_single:
  "sum_list (map (\<lambda>k. if k = i0 then c else 0) [0..<K]) = (if i0 < K then c else (0::nat))"
  by (induction K) auto

lemma sum_list_first_Suc:
  "sum_list (map (\<lambda>k. if k = 0 then c else d) [0..<Suc K]) = c + K * (d::nat)"
  by (induction K) simp_all

lemma sum_list_first:
  "0 < K \<Longrightarrow> sum_list (map (\<lambda>k. if k = 0 then c else d) [0..<K]) = c + (K - 1) * (d::nat)"
  using sum_list_first_Suc [of c d "K - 1"] by simp

lemma mult_if: "(c::nat) * (if b then x else y) = (if b then c * x else c * y)"
  by simp


lemma count_tile_ReadY_in:
  "count_events (ReadY_in i0) (tile_events J i j ii yv) = (if i = i0 then if j = 0 then 1 else 0 else 0)"
  by (simp add: count_events_def tile_events_def filter_map comp_def ReadY_in_def)




lemma count_engine_ReadY_in:
  assumes "0 < m div mTile" and "i0 < n div nTile"
  shows "count_events (ReadY_in i0) (engine_events nTile mTile n m w y) = nTile"
proof -
  have "count_events (ReadY_in i0) (engine_events nTile mTile n m w y) =
        sum_list (map (\<lambda>i. if i = i0 then nTile else 0) [0..<n div nTile])"
    unfolding engine_events_def count_concat_map count_tile_ReadY_in
    using assms(1)
    by (intro arg_cong [where f = sum_list] map_cong refl)
       (simp add: sum_list_const_nat sum_list_first mult_if)
  then show ?thesis using assms(2) by (simp add: sum_list_single)
qed



subsection \<open>Fill and reuse\<close>

lemma tile_events_mem:
  "e \<in> set (tile_events J i j ii yv) \<longleftrightarrow>
     e = (if j = 0 then ReadY i j ii yv else ReadEmpty i j ii) \<or>
     (\<exists>jj<J. e = YBufRead i j ii jj yv)"
  by (auto simp add: tile_events_def)

lemma engine_events_mem:
  "e \<in> set (engine_events nTile mTile n m w y) \<longleftrightarrow>
     (\<exists>i<n div nTile. \<exists>j<m div mTile. \<exists>ii<nTile.
        e \<in> set (tile_events (mTile div w) i j ii (y ! (i * nTile + ii))))"
  unfolding engine_events_def by (simp add: Bex_def)

lemma inner_keeps_y:
  "vectorize_inner_graph w a i j ii jj s = Inr s' \<Longrightarrow>
     y_strm s' = y_strm s \<and> y_buf_row s' = y_buf_row s"
  by (auto simp add: vectorize_inner_graph_def readX_state_def compute_state_def
      streamOut_state_def bind_err_def pop_def write_vec_def read_vec_def read_elem_def
      split: sum.splits list.splits if_splits prod.splits)

lemma for_map_keeps:
  assumes "\<And>k s s'. body k s = Inr s' \<Longrightarrow> f s' = f s"
  shows "for_map ks body s = Inr s' \<Longrightarrow> f s' = f s"
proof (induction ks arbitrary: s)
  case Nil
  then show ?case by simp
next
  case (Cons k ks)
  then show ?case
    by (auto split: sum.splits dest!: assms)
qed

lemma inner_loop_keeps_y:
  assumes "for_map ks (vectorize_inner_graph w a i j ii) s = Inr s'"
  shows "y_strm s' = y_strm s" and "y_buf_row s' = y_buf_row s"
  using for_map_keeps [where f = y_strm and body = "vectorize_inner_graph w a i j ii", OF _ assms]
    for_map_keeps [where f = y_buf_row and body = "vectorize_inner_graph w a i j ii", OF _ assms]
  by (simp_all add: inner_keeps_y)

lemma tile_sdfg_y_protocol:
  assumes "tile_sdfg mTile w a i j ii s = Inr s'"
  shows "if j = 0
         then y_strm s = y_buf_row s' ! ii # y_strm s' \<and> ii < length (y_buf_row s) \<and>
              y_buf_row s' = (y_buf_row s)[ii := y_buf_row s' ! ii]
         else y_strm s' = y_strm s \<and> y_buf_row s' = y_buf_row s"
proof (cases "j = 0")
  case True
  with assms obtain s1 where s1: "read_y_reduceTile i j ii s = Inr s1"
    and loop: "for_map [0..<mTile div w] (vectorize_inner_graph w a i j ii) s1 = Inr s'"
    by (auto simp add: tile_sdfg_def bind_err_def split: sum.splits)
  from s1 obtain v rest where "y_strm s = v # rest" "ii < length (y_buf_row s)"
    "y_strm s1 = rest" "y_buf_row s1 = (y_buf_row s)[ii := v]"
    by (auto simp add: read_y_reduceTile_def bind_err_def pop_def write_elem_def
        split: sum.splits list.splits if_splits)
  with inner_loop_keeps_y [OF loop] True show ?thesis by simp
next
  case False
  with assms have loop: "for_map [0..<mTile div w] (vectorize_inner_graph w a i j ii)
      (s\<lparr>events := events s @ [ReadEmpty i j ii]\<rparr>) = Inr s'"
    by (simp add: tile_sdfg_def read_empty_reduceTile_def)
  with inner_loop_keeps_y [OF loop] False show ?thesis by simp
qed

text \<open>
  C6: one execution of the tile graph with \<open>j = 0\<close> pops one element of the stream \<open>y\<close> and
  writes it to the buffer at the row index \<open>ii\<close>; with \<open>j \<noteq> 0\<close> it leaves the stream and
  the buffer as they are. In a complete run on a valid configuration, the stream \<open>y\<close> is
  read at \<open>(i, j, ii)\<close> exactly when \<open>j = 0\<close>, once for every row index, \<open>nTile\<close> elements
  for the row-block; the empty state is taken exactly when \<open>j \<noteq> 0\<close>; and every value the
  compute task reads from the buffer, at any column tile of row-block \<open>i\<close> and row \<open>ii\<close>, is
  the value written at column tile 0 of the same row-block for that row.
\<close>

theorem y_buffer_fill_reuse:
  assumes valid: "valid_config nTile mTile n m w"
    and shapes: "length x = m" "length y = n" "has_shape (Arr2 A) [n, m]"
  shows "(\<forall>i j ii s s'. tile_sdfg mTile w a i j ii s = Inr s' \<longrightarrow>
            (if j = 0
             then y_strm s = y_buf_row s' ! ii # y_strm s' \<and> ii < length (y_buf_row s) \<and>
                  y_buf_row s' = (y_buf_row s)[ii := y_buf_row s' ! ii]
             else y_strm s' = y_strm s \<and> y_buf_row s' = y_buf_row s)) \<and>
         (\<exists>s. run_fpga nTile mTile n m w a junk x y A = Inr s \<and>
            (\<forall>i j ii v. ReadY i j ii v \<in> set (events s) \<longleftrightarrow>
               i < n div nTile \<and> j = 0 \<and> ii < nTile \<and> v = y ! (i * nTile + ii)) \<and>
            (\<forall>i j ii. ReadEmpty i j ii \<in> set (events s) \<longleftrightarrow>
               i < n div nTile \<and> 0 < j \<and> j < m div mTile \<and> ii < nTile) \<and>
            (\<forall>i < n div nTile. count_events (ReadY_in i) (events s) = nTile) \<and>
            (\<forall>i j ii jj v. YBufRead i j ii jj v \<in> set (events s) \<longrightarrow>
               ReadY i 0 ii v \<in> set (events s)))"
proof (intro conjI allI impI)
  fix i j ii and s s' :: "'a engine"
  assume "tile_sdfg mTile w a i j ii s = Inr s'"
  then show "if j = 0
             then y_strm s = y_buf_row s' ! ii # y_strm s' \<and> ii < length (y_buf_row s) \<and>
                  y_buf_row s' = (y_buf_row s)[ii := y_buf_row s' ! ii]
             else y_strm s' = y_strm s \<and> y_buf_row s' = y_buf_row s"
    by (rule tile_sdfg_y_protocol)
next
  from valid have pos: "0 < m" "0 < mTile" and dvd: "mTile dvd m"
    by (simp_all add: valid_config_def)
  from dvd obtain C where C: "m = mTile * C" by (auto simp add: dvd_def)
  have CM: "0 < m div mTile"
    using pos by (simp add: C)
  from run_fpga_final [OF valid shapes, of a junk]
  obtain yb xb where run: "run_fpga nTile mTile n m w a junk x y A =
           Inr \<lparr>A_strm = [], x_strm = [], y_strm = [],
                res_strm = engine_res nTile mTile n m w a x y A,
                y_buf_row = yb, x_buf = xb,
                events = engine_events nTile mTile n m w y\<rparr>"
    by blast
  have ry: "\<forall>i j ii v. ReadY i j ii v \<in> set (engine_events nTile mTile n m w y) \<longleftrightarrow>
               i < n div nTile \<and> j = 0 \<and> ii < nTile \<and> v = y ! (i * nTile + ii)"
    using CM by (auto simp add: engine_events_mem tile_events_mem split: if_splits)
  have re: "\<forall>i j ii. ReadEmpty i j ii \<in> set (engine_events nTile mTile n m w y) \<longleftrightarrow>
               i < n div nTile \<and> 0 < j \<and> j < m div mTile \<and> ii < nTile"
    by (auto simp add: engine_events_mem tile_events_mem split: if_splits)
  have cnt: "\<forall>i < n div nTile. count_events (ReadY_in i) (engine_events nTile mTile n m w y) = nTile"
    using CM by (simp add: count_engine_ReadY_in)
  have rd: "\<forall>i j ii jj v. YBufRead i j ii jj v \<in> set (engine_events nTile mTile n m w y) \<longrightarrow>
               ReadY i 0 ii v \<in> set (engine_events nTile mTile n m w y)"
    using CM by (auto simp add: engine_events_mem tile_events_mem split: if_splits)
  show "\<exists>s. run_fpga nTile mTile n m w a junk x y A = Inr s \<and>
            (\<forall>i j ii v. ReadY i j ii v \<in> set (events s) \<longleftrightarrow>
               i < n div nTile \<and> j = 0 \<and> ii < nTile \<and> v = y ! (i * nTile + ii)) \<and>
            (\<forall>i j ii. ReadEmpty i j ii \<in> set (events s) \<longleftrightarrow>
               i < n div nTile \<and> 0 < j \<and> j < m div mTile \<and> ii < nTile) \<and>
            (\<forall>i < n div nTile. count_events (ReadY_in i) (events s) = nTile) \<and>
            (\<forall>i j ii jj v. YBufRead i j ii jj v \<in> set (events s) \<longrightarrow>
               ReadY i 0 ii v \<in> set (events s))"
    unfolding run using ry re cnt rd by simp
qed

theorem y_buffer_fill_reuse_witness:
  "\<exists>s. run_fpga 2 2 4 4 1 (1::int) zero_junk [1, 2, 3, 4] [5, 6, 7, 8]
          [[0, 0, 0, 0], [0, 0, 0, 0], [0, 0, 0, 0], [0, 0, 0, 0]] = Inr s \<and>
        ReadY 1 0 1 8 \<in> set (events s) \<and>
        ReadY 0 1 0 5 \<notin> set (events s) \<and>
        ReadEmpty 0 1 0 \<in> set (events s) \<and>
        count_events (ReadY_in 1) (events s) = 2"
proof -
  have valid: "valid_config 2 2 4 4 1"
    by (simp add: valid_config_def)
  have shapes: "length [1, 2, 3, 4 :: int] = 4" "length [5, 6, 7, 8 :: int] = 4"
    "has_shape (Arr2 [[0, 0, 0, 0], [0, 0, 0, 0], [0, 0, 0, 0], [0, 0, 0, 0 :: int]]) [4, 4]"
    by simp_all
  from y_buffer_fill_reuse [OF valid shapes, of 1 zero_junk]
  have "\<exists>s. run_fpga 2 2 4 4 1 (1::int) zero_junk [1, 2, 3, 4] [5, 6, 7, 8]
          [[0, 0, 0, 0], [0, 0, 0, 0], [0, 0, 0, 0], [0, 0, 0, 0]] = Inr s \<and>
            (\<forall>i j ii v. ReadY i j ii v \<in> set (events s) \<longleftrightarrow>
               i < 4 div 2 \<and> j = 0 \<and> ii < 2 \<and> v = [5, 6, 7, 8] ! (i * 2 + ii)) \<and>
            (\<forall>i j ii. ReadEmpty i j ii \<in> set (events s) \<longleftrightarrow>
               i < 4 div 2 \<and> 0 < j \<and> j < 4 div 2 \<and> ii < 2) \<and>
            (\<forall>i < 4 div 2. count_events (ReadY_in i) (events s) = 2) \<and>
            (\<forall>i j ii jj v. YBufRead i j ii jj v \<in> set (events s) \<longrightarrow>
               ReadY i 0 ii v \<in> set (events s))"
    by (rule conjunct2)
  then obtain s where run: "run_fpga 2 2 4 4 1 (1::int) zero_junk [1, 2, 3, 4] [5, 6, 7, 8]
          [[0, 0, 0, 0], [0, 0, 0, 0], [0, 0, 0, 0], [0, 0, 0, 0]] = Inr s"
    and ry: "\<forall>i j ii v. ReadY i j ii v \<in> set (events s) \<longleftrightarrow>
               i < 4 div 2 \<and> j = 0 \<and> ii < 2 \<and> v = [5, 6, 7, 8] ! (i * 2 + ii)"
    and re: "\<forall>i j ii. ReadEmpty i j ii \<in> set (events s) \<longleftrightarrow>
               i < 4 div 2 \<and> 0 < j \<and> j < 4 div 2 \<and> ii < 2"
    and cnt: "\<forall>i < 4 div 2. count_events (ReadY_in i) (events s) = 2"
    by (elim exE conjE) (rule that)
  have "ReadY 1 0 1 8 \<in> set (events s)" using ry by simp
  moreover have "ReadY 0 1 0 5 \<notin> set (events s)" using ry by simp
  moreover have "ReadEmpty 0 1 0 \<in> set (events s)" using re by simp
  moreover have "count_events (ReadY_in 1) (events s) = 2" using cnt by simp
  ultimately show ?thesis using run by blast
qed




end
